theory Spec2Isabelle
  imports Main "HOL-Library.Sublist"
begin

section \<open>JavaScript strings\<close>

text \<open>
  A JavaScript string is modelled as a \<open>string\<close>: every \<open>char\<close> stands for one UTF-16 code
  unit below 256. All patterns of the parser are ASCII patterns, so code units above 255
  would only ever be matched by the negated classes \<open>[^\]]\<close> and \<open>[^"]\<close>.
\<close>

definition is_alpha :: "char \<Rightarrow> bool" where
  \<comment> \<open>the class \<open>[a-zA-Z]\<close>\<close>
  "is_alpha c = (c \<in> set ''abcdefghijklmnopqrstuvwxyzABCDEFGHIJKLMNOPQRSTUVWXYZ'')"

definition is_digit :: "char \<Rightarrow> bool" where
  "is_digit c = (c \<in> set ''0123456789'')"

definition is_ident_start :: "char \<Rightarrow> bool" where
  \<comment> \<open>the class \<open>[a-zA-Z_]\<close>\<close>
  "is_ident_start c = (is_alpha c \<or> c = CHR ''_'')"

definition is_ident_char :: "char \<Rightarrow> bool" where
  \<comment> \<open>the class \<open>[a-zA-Z0-9_]\<close>\<close>
  "is_ident_char c = (is_alpha c \<or> is_digit c \<or> c = CHR ''_'')"

definition is_space :: "char \<Rightarrow> bool" where
  \<comment> \<open>the class \<open>\s\<close> (and the characters removed by \<open>trim\<close>) among the code units below 256:
      tab, line feed, vertical tab, form feed, carriage return, space, no-break space\<close>
  "is_space c = (c \<in> set [CHR 0x09, CHR 0x0A, CHR 0x0B, CHR 0x0C, CHR 0x0D, CHR '' '', CHR 0xA0])"

fun js_split :: "char \<Rightarrow> string \<Rightarrow> string list" where
  \<comment> \<open>\<open>s.split(sep)\<close> for a one-character separator; the empty string gives one empty piece\<close>
  "js_split sep [] = [[]]"
| "js_split sep (c # cs) =
     (if c = sep then [] # js_split sep cs
      else (case js_split sep cs of
              [] \<Rightarrow> [[c]]
            | w # ws \<Rightarrow> (c # w) # ws))"

fun js_join :: "string \<Rightarrow> string list \<Rightarrow> string" where
  \<comment> \<open>\<open>parts.join(sep)\<close>\<close>
  "js_join sep [] = []"
| "js_join sep [p] = p"
| "js_join sep (p # q # ps) = p @ sep @ js_join sep (q # ps)"

fun js_includes :: "string \<Rightarrow> string \<Rightarrow> bool" where
  \<comment> \<open>\<open>s.includes(pat)\<close>\<close>
  "js_includes [] pat = (pat = [])"
| "js_includes (c # cs) pat = (prefix pat (c # cs) \<or> js_includes cs pat)"

definition js_startsWith :: "string \<Rightarrow> string \<Rightarrow> bool" where
  "js_startsWith s pat = prefix pat s"

definition js_endsWith :: "string \<Rightarrow> string \<Rightarrow> bool" where
  "js_endsWith s pat = suffix pat s"

definition lower_char :: "char \<Rightarrow> char" where
  \<comment> \<open>\<open>toLowerCase\<close> on one code unit below 256: \<open>A-Z\<close> and the Latin-1 capitals
      \<open>0xC0-0xDE\<close> (without the multiplication sign \<open>0xD7\<close>) move up by 32\<close>
  "lower_char c =
     (let n = (of_char c :: nat) in
      if (65 \<le> n \<and> n \<le> 90) \<or> (192 \<le> n \<and> n \<le> 222 \<and> n \<noteq> 215) then char_of (n + 32) else c)"

definition js_toLowerCase :: "string \<Rightarrow> string" where
  "js_toLowerCase s = map lower_char s"

definition js_trim :: "string \<Rightarrow> string" where
  "js_trim s = rev (dropWhile is_space (rev (dropWhile is_space s)))"

definition digit_char :: "nat \<Rightarrow> char" where
  "digit_char d = ''0123456789'' ! (d mod 10)"

function string_of_nat :: "nat \<Rightarrow> string" where
  \<comment> \<open>the decimal numeral a template literal prints for a non-negative integer\<close>
  "string_of_nat n = (if n < 10 then [digit_char n] else string_of_nat (n div 10) @ [digit_char n])"
  by pat_completeness auto
termination
  by (relation "measure (\<lambda>n. n)") auto

declare string_of_nat.simps [simp del]

section \<open>Regular expressions of the template parser\<close>

text \<open>
  A pattern is modelled by its matcher at the head of a string: the matcher returns the
  length of the match and the captured groups, or \<open>None\<close>. None of the patterns looks behind
  the position where it starts, so the text before the position plays no role. Every
  quantifier of the patterns is followed by a position where giving characters back
  cannot help (the next item cannot start with a character of the class just repeated), so
  the backtracking matcher finds exactly the greedy match computed here.
\<close>

function greedy_plus :: "(string \<Rightarrow> nat option) \<Rightarrow> string \<Rightarrow> nat" where
  \<comment> \<open>\<open>(?:seg)+\<close> and \<open>(?:seg)*\<close>: the total length of the greedy repetition of \<open>seg\<close>, 0 when there
      is none; an iteration that consumes nothing ends the repetition, as in ECMAScript\<close>
  "greedy_plus seg s =
     (case seg s of
        None \<Rightarrow> 0
      | Some n \<Rightarrow> if n = 0 \<or> length s < n then 0 else n + greedy_plus seg (drop n s))"
  by pat_completeness auto
termination
  by (relation "measure (\<lambda>(seg, s). length s)") auto

declare greedy_plus.simps [simp del]

function regex_exec_all :: "(string \<Rightarrow> (nat \<times> 'a) option) \<Rightarrow> nat \<Rightarrow> string \<Rightarrow> (nat \<times> string \<times> 'a) list" where
  \<comment> \<open>the loop \<open>while ((match = regex.exec(text)) !== null)\<close> of a global pattern: \<open>s\<close> is the
      text from \<open>lastIndex = i\<close> on; a failed attempt moves one character on, a match is
      recorded with its index, its text and its groups and the search resumes behind it.
      No pattern of this program matches the empty string, so the guard \<open>n = 0\<close> is never taken.\<close>
  "regex_exec_all m i s =
     (if s = [] then []
      else (case m s of
              None \<Rightarrow> regex_exec_all m (Suc i) (tl s)
            | Some (n, groups) \<Rightarrow>
                if n = 0 then []
                else (i, take n s, groups) # regex_exec_all m (i + n) (drop n s)))"
  by pat_completeness auto
termination
  by (relation "measure (\<lambda>(m, i, s). length s)") auto

declare regex_exec_all.simps [simp del]

definition match_values_segment :: "string \<Rightarrow> nat option" where
  \<comment> \<open>one \<open>\.[a-zA-Z_][a-zA-Z0-9_]*|\[[^\]]+\]\<close>\<close>
  "match_values_segment s =
     (case s of
        [] \<Rightarrow> None
      | c # rest \<Rightarrow>
          if c = CHR ''.'' then
            (case rest of
               [] \<Rightarrow> None
             | d # rest' \<Rightarrow>
                 if is_ident_start d then Some (2 + length (takeWhile is_ident_char rest')) else None)
          else if c = CHR ''['' then
            (let body = takeWhile (\<lambda>x. x \<noteq> CHR '']'') rest in
             if body \<noteq> [] \<and> length body < length rest then Some (length body + 2) else None)
          else None)"

definition match_values :: "string \<Rightarrow> (nat \<times> string) option" where
  \<comment> \<open>\<open>/\.Values((?:\.[a-zA-Z_][a-zA-Z0-9_]*|\[[^\]]+\])+)/\<close>; the group is the segment chain\<close>
  "match_values s =
     (if prefix ''.Values'' s then
        (let n = greedy_plus match_values_segment (drop 7 s) in
         if n = 0 then None else Some (7 + n, take n (drop 7 s)))
      else None)"


definition match_quoted :: "string \<Rightarrow> (nat \<times> string) option" where
  \<comment> \<open>\<open>"([^"]+)"\<close>: a quote, the longest non-empty run without a quote, and the closing quote\<close>
  "match_quoted s =
     (case s of
        [] \<Rightarrow> None
      | c # rest \<Rightarrow>
          if c = CHR 0x22 then
            (let body = takeWhile (\<lambda>x. x \<noteq> CHR 0x22) rest in
             if body \<noteq> [] \<and> length body < length rest then Some (length body + 2, body) else None)
          else None)"

definition match_call :: "string \<Rightarrow> string \<Rightarrow> (nat \<times> string) option" where
  \<comment> \<open>\<open>/\{\{\s*(?:-\s*)?KEYWORD\s+"([^"]+)"/\<close> for \<open>KEYWORD\<close> \<open>include\<close> or \<open>template\<close>\<close>
  "match_call keyword s =
     (if prefix ''{{'' s then
        (let r1 = dropWhile is_space (drop 2 s);
             r2 = (case r1 of
                     [] \<Rightarrow> r1
                   | c # r \<Rightarrow> if c = CHR ''-'' then dropWhile is_space r else r1)
         in if prefix keyword r2 then
              (let r3 = drop (length keyword) r2;
                   r4 = dropWhile is_space r3
               in if length r4 < length r3 then
                    (case match_quoted r4 of
                       None \<Rightarrow> None
                     | Some (n, name) \<Rightarrow> Some (length s - length r4 + n, name))
                  else None)
            else None)
      else None)"

definition match_property :: "string \<Rightarrow> string \<Rightarrow> (nat \<times> string) option" where
  \<comment> \<open>\<open>/\.Chart\.([a-zA-Z]+)/\<close> and \<open>/\.Release\.([a-zA-Z]+)/\<close>: \<open>lit\<close> is the literal head\<close>
  "match_property lit s =
     (if prefix lit s then
        (let name = takeWhile is_alpha (drop (length lit) s) in
         if name = [] then None else Some (length lit + length name, name))
      else None)"

definition match_files :: "string \<Rightarrow> (nat \<times> string \<times> string option) option" where
  \<comment> \<open>\<open>/\.Files\.([a-zA-Z]+)\s*(?:"([^"]+)")?/\<close>: the second group is \<open>None\<close> when the optional
      quoted argument does not take part in the match\<close>
  "match_files s =
     (if prefix ''.Files.'' s then
        (let r1 = drop 7 s;
             method = takeWhile is_alpha r1
         in if method = [] then None
            else
              (let r2 = drop (length method) r1;
                   r3 = dropWhile is_space r2;
                   n = length s - length r3
               in (case match_quoted r3 of
                     None \<Rightarrow> Some (n, method, None)
                   | Some (k, arg) \<Rightarrow> Some (n + k, method, Some arg))))
      else None)"

definition match_capabilities_segment :: "string \<Rightarrow> nat option" where
  \<comment> \<open>one \<open>\.[a-zA-Z]+\<close>\<close>
  "match_capabilities_segment s =
     (case s of
        [] \<Rightarrow> None
      | c # rest \<Rightarrow>
          if c = CHR ''.'' \<and> takeWhile is_alpha rest \<noteq> [] then Some (1 + length (takeWhile is_alpha rest))
          else None)"

definition match_capabilities :: "string \<Rightarrow> (nat \<times> string) option" where
  \<comment> \<open>\<open>/\.Capabilities((?:\.[a-zA-Z]+)+)/\<close>\<close>
  "match_capabilities s =
     (if prefix ''.Capabilities'' s then
        (let n = greedy_plus match_capabilities_segment (drop 13 s) in
         if n = 0 then None else Some (13 + n, take n (drop 13 s)))
      else None)"

definition strip_leading_dot :: "string \<Rightarrow> string" where
  \<comment> \<open>\<open>s.replace(/^\./, '')\<close>\<close>
  "strip_leading_dot s = (case s of [] \<Rightarrow> [] | c # rest \<Rightarrow> if c = CHR ''.'' then rest else s)"

section \<open>References\<close>

datatype ReferenceType =
  RT_values | RT_include | RT_template | RT_chart | RT_release | RT_files | RT_capabilities

datatype TargetType = TT_value | TT_helper | TT_chart | TT_release | TT_file | TT_capability

record ReferenceSource =
  rs_file :: string
  rs_line :: nat

record ReferenceTarget =
  rt_type :: TargetType
  rt_path :: string

record Reference =
  ref_id :: string
  ref_type :: ReferenceType
  ref_source :: ReferenceSource
  ref_target :: ReferenceTarget
  ref_expression :: string
  ref_line :: nat

record HelperDefinition =
  hd_name :: string
  hd_file :: string
  hd_line :: nat
  hd_content :: string

definition type_name :: "ReferenceType \<Rightarrow> string" where
  \<comment> \<open>the string a reference type is in the source\<close>
  "type_name ty =
     (case ty of
        RT_values \<Rightarrow> ''values''
      | RT_include \<Rightarrow> ''include''
      | RT_template \<Rightarrow> ''template''
      | RT_chart \<Rightarrow> ''chart''
      | RT_release \<Rightarrow> ''release''
      | RT_files \<Rightarrow> ''files''
      | RT_capabilities \<Rightarrow> ''capabilities'')"

definition make_reference ::
  "string \<Rightarrow> nat \<Rightarrow> ReferenceType \<Rightarrow> TargetType \<Rightarrow> string \<Rightarrow> string \<Rightarrow> string \<Rightarrow> Reference" where
  \<comment> \<open>the object literal every extractor pushes. In all six the third part of the id
      template \<open>`${filePath}:${lineNum}:TYPE:${key}`\<close> is the name of the type; \<open>key\<close> is
      the last part\<close>
  "make_reference filePath lineNum ty tty key tpath expr =
     \<lparr> ref_id = filePath @ '':'' @ string_of_nat lineNum @ '':'' @ type_name ty @ '':'' @ key,
       ref_type = ty,
       ref_source = \<lparr> rs_file = filePath, rs_line = lineNum \<rparr>,
       ref_target = \<lparr> rt_type = tty, rt_path = tpath \<rparr>,
       ref_expression = expr,
       ref_line = lineNum \<rparr>"

definition extractValuesReferences :: "string \<Rightarrow> string \<Rightarrow> nat \<Rightarrow> Reference list" where
  "extractValuesReferences line filePath lineNum =
     map (\<lambda>(i, fullPath, g1).
            let path = strip_leading_dot g1 in
            make_reference filePath lineNum RT_values TT_value path path fullPath)
         (regex_exec_all match_values 0 line)"

definition extractIncludeReferences :: "string \<Rightarrow> string \<Rightarrow> nat \<Rightarrow> Reference list" where
  "extractIncludeReferences line filePath lineNum =
     map (\<lambda>(i, m0, helperName).
            make_reference filePath lineNum RT_include TT_helper helperName helperName m0)
         (regex_exec_all (match_call ''include'') 0 line)
     @
     map (\<lambda>(i, m0, helperName).
            make_reference filePath lineNum RT_template TT_helper helperName helperName m0)
         (regex_exec_all (match_call ''template'') 0 line)"

definition extractChartReferences :: "string \<Rightarrow> string \<Rightarrow> nat \<Rightarrow> Reference list" where
  "extractChartReferences line filePath lineNum =
     map (\<lambda>(i, m0, property).
            make_reference filePath lineNum RT_chart TT_chart property property m0)
         (regex_exec_all (match_property ''.Chart.'') 0 line)"

definition extractReleaseReferences :: "string \<Rightarrow> string \<Rightarrow> nat \<Rightarrow> Reference list" where
  "extractReleaseReferences line filePath lineNum =
     map (\<lambda>(i, m0, property).
            make_reference filePath lineNum RT_release TT_release property property m0)
         (regex_exec_all (match_property ''.Release.'') 0 line)"

definition extractFilesReferences :: "string \<Rightarrow> string \<Rightarrow> nat \<Rightarrow> Reference list" where
  \<comment> \<open>\<open>arg = match[2] || ''\<close>; the target path is \<open>arg || method\<close>\<close>
  "extractFilesReferences line filePath lineNum =
     map (\<lambda>(i, m0, method, g2).
            let arg = (case g2 of None \<Rightarrow> [] | Some a \<Rightarrow> a) in
            make_reference filePath lineNum RT_files TT_file (method @ '':'' @ arg)
              (if arg = [] then method else arg) m0)
         (regex_exec_all match_files 0 line)"

definition extractCapabilitiesReferences :: "string \<Rightarrow> string \<Rightarrow> nat \<Rightarrow> Reference list" where
  "extractCapabilitiesReferences line filePath lineNum =
     map (\<lambda>(i, m0, g1).
            let path = strip_leading_dot g1 in
            make_reference filePath lineNum RT_capabilities TT_capability path path m0)
         (regex_exec_all match_capabilities 0 line)"

definition extractLineReferences :: "string \<Rightarrow> string \<Rightarrow> nat \<Rightarrow> Reference list" where
  \<comment> \<open>the body of the \<open>lines.forEach\<close> callback of \<open>extractReferences\<close>\<close>
  "extractLineReferences line filePath lineNum =
     extractValuesReferences line filePath lineNum
     @ extractIncludeReferences line filePath lineNum
     @ extractChartReferences line filePath lineNum
     @ extractReleaseReferences line filePath lineNum
     @ extractFilesReferences line filePath lineNum
     @ extractCapabilitiesReferences line filePath lineNum"

definition extractReferences :: "string \<Rightarrow> string \<Rightarrow> Reference list" where
  "extractReferences content filePath =
     concat (map (\<lambda>(lineIndex, line). extractLineReferences line filePath (lineIndex + 1))
                 (enumerate 0 (js_split (CHR 0x0A) content)))"


subsection \<open>Helper definitions\<close>

definition match_marker_end :: "string \<Rightarrow> nat option" where
  \<comment> \<open>\<open>\s*-?\}\}\<close>, the closing part of a \<open>define\<close> or \<open>end\<close> marker\<close>
  "match_marker_end s =
     (let r1 = dropWhile is_space s;
          r2 = (case r1 of [] \<Rightarrow> r1 | c # r \<Rightarrow> if c = CHR ''-'' then r else r1)
      in if prefix ''}}'' r2 then Some (length s - length r2 + 2) else None)"

definition match_marker_start :: "string \<Rightarrow> string \<Rightarrow> nat option" where
  \<comment> \<open>\<open>\{\{-?\s*KEYWORD\<close>\<close>
  "match_marker_start keyword s =
     (if prefix ''{{'' s then
        (let r1 = drop 2 s;
             r2 = (case r1 of [] \<Rightarrow> r1 | c # r \<Rightarrow> if c = CHR ''-'' then r else r1);
             r3 = dropWhile is_space r2
         in if prefix keyword r3 then Some (length s - length r3 + length keyword) else None)
      else None)"

definition match_end_block :: "string \<Rightarrow> nat option" where
  \<comment> \<open>\<open>\{\{-?\s*end\s*-?\}\}\<close>\<close>
  "match_end_block s =
     (case match_marker_start ''end'' s of
        None \<Rightarrow> None
      | Some n \<Rightarrow> (case match_marker_end (drop n s) of None \<Rightarrow> None | Some k \<Rightarrow> Some (n + k)))"

fun lazy_until :: "(string \<Rightarrow> nat option) \<Rightarrow> string \<Rightarrow> (nat \<times> nat) option" where
  \<comment> \<open>\<open>[\s\S]*?\<close> followed by a pattern \<open>m\<close>: the least number of skipped characters after
      which \<open>m\<close> matches, with the length of that match\<close>
  "lazy_until m [] = (case m [] of None \<Rightarrow> None | Some n \<Rightarrow> Some (0, n))"
| "lazy_until m (c # cs) =
     (case m (c # cs) of
        Some n \<Rightarrow> Some (0, n)
      | None \<Rightarrow> (case lazy_until m cs of None \<Rightarrow> None | Some (k, n) \<Rightarrow> Some (Suc k, n)))"

definition match_define :: "string \<Rightarrow> (nat \<times> string \<times> string) option" where
  \<comment> \<open>\<open>/\{\{-?\s*define\s+"([^"]+)"\s*-?\}\}([\s\S]*?)\{\{-?\s*end\s*-?\}\}/\<close>: the groups are the
      name and the body\<close>
  "match_define s =
     (case match_marker_start ''define'' s of
        None \<Rightarrow> None
      | Some n0 \<Rightarrow>
          (let r1 = drop n0 s; r2 = dropWhile is_space r1 in
           if length r2 < length r1 then
             (case match_quoted r2 of
                None \<Rightarrow> None
              | Some (n1, name) \<Rightarrow>
                  (let r3 = drop n1 r2 in
                   case match_marker_end r3 of
                     None \<Rightarrow> None
                   | Some n2 \<Rightarrow>
                       (let r4 = drop n2 r3 in
                        case lazy_until match_end_block r4 of
                          None \<Rightarrow> None
                        | Some (k, n3) \<Rightarrow> Some (length s - length r4 + k + n3, name, take k r4))))
           else None))"

definition extractHelperDefinitions :: "string \<Rightarrow> string \<Rightarrow> HelperDefinition list" where
  \<comment> \<open>the line of a definition is one more than the number of line feeds before \<open>match.index\<close>\<close>
  "extractHelperDefinitions content filePath =
     map (\<lambda>(index, m0, name, body).
            \<lparr> hd_name = name,
              hd_file = filePath,
              hd_line = length (filter (\<lambda>c. c = CHR 0x0A) (take index content)) + 1,
              hd_content = js_trim body \<rparr>)
         (regex_exec_all match_define 0 content)"

section \<open>Configuration values\<close>

text \<open>
  The values js-yaml produces: \<open>undefined\<close> (an empty document), \<open>null\<close>, booleans, numbers,
  strings, arrays and plain objects. An object is the list of its own properties in the
  order of \<open>Object.keys\<close>. Numbers are the integers, and \<open>js_String\<close> prints them in
  decimal, as \<open>String\<close> does for the integers below \<open>10\<^sup>2\<^sup>1\<close> that a double holds
  exactly; the other doubles js-yaml can produce (fractions, infinities, \<open>NaN\<close>) and the
  exponent notation of \<open>String\<close> are not modelled, and nothing below reads a printed number. Members inherited from \<open>Object.prototype\<close> and
  \<open>Array.prototype\<close> are not modelled, apart from the \<open>length\<close> of an array.
\<close>

datatype jsvalue =
  JUndefined
| JNull
| JBool bool
| JNum int
| JStr string
| JArr "jsvalue list"
| JObj "(string \<times> jsvalue) list"

datatype js_error = YAMLException | TypeError

datatype ValueType = VT_string | VT_number | VT_boolean | VT_array | VT_object | VT_null

record ValueKey =
  vk_path :: string
  vk_fullPath :: string
  vk_value :: jsvalue
  vk_type :: ValueType

record ValuesData =
  vd_raw :: jsvalue
  vd_flatKeys :: "ValueKey list"

definition js_truthy :: "jsvalue \<Rightarrow> bool" where
  "js_truthy v =
     (case v of
        JUndefined \<Rightarrow> False
      | JNull \<Rightarrow> False
      | JBool b \<Rightarrow> b
      | JNum n \<Rightarrow> n \<noteq> 0
      | JStr s \<Rightarrow> s \<noteq> []
      | JArr xs \<Rightarrow> True
      | JObj fs \<Rightarrow> True)"

definition string_of_int :: "int \<Rightarrow> string" where
  "string_of_int n = (if n < 0 then CHR ''-'' # string_of_nat (nat (- n)) else string_of_nat (nat n))"

fun js_String :: "jsvalue \<Rightarrow> string"
and js_String_items :: "jsvalue list \<Rightarrow> string" where
  \<comment> \<open>\<open>String(v)\<close>; an array prints its items joined by commas, \<open>null\<close> and \<open>undefined\<close> items
      as the empty string\<close>
  "js_String JUndefined = ''undefined''"
| "js_String JNull = ''null''"
| "js_String (JBool b) = (if b then ''true'' else ''false'')"
| "js_String (JNum n) = string_of_int n"
| "js_String (JStr s) = s"
| "js_String (JArr xs) = js_String_items xs"
| "js_String (JObj fs) = ''[object Object]''"
| "js_String_items [] = []"
| "js_String_items (x # xs) =
     (if x = JUndefined \<or> x = JNull then [] else js_String x)
     @ (if xs = [] then [] else '','' @ js_String_items xs)"

definition is_array_index :: "string \<Rightarrow> bool" where
  \<comment> \<open>a canonical array index: decimal digits without a leading zero, or \<open>0\<close> itself\<close>
  "is_array_index s = (s \<noteq> [] \<and> list_all is_digit s \<and> (if hd s = CHR ''0'' then s = ''0'' else True))"

definition nat_of_digits :: "string \<Rightarrow> nat" where
  "nat_of_digits s = foldl (\<lambda>acc c. 10 * acc + (of_char c - 48)) 0 s"

definition js_get :: "jsvalue \<Rightarrow> string \<Rightarrow> jsvalue" where
  \<comment> \<open>\<open>v[part]\<close> on a value that is neither \<open>null\<close> nor \<open>undefined\<close>\<close>
  "js_get v part =
     (case v of
        JObj fs \<Rightarrow> (case map_of fs part of None \<Rightarrow> JUndefined | Some x \<Rightarrow> x)
      | JArr xs \<Rightarrow>
          if is_array_index part \<and> nat_of_digits part < length xs then xs ! nat_of_digits part
          else if part = ''length'' then JNum (int (length xs))
          else JUndefined
      | JStr t \<Rightarrow>
          if is_array_index part \<and> nat_of_digits part < length t then JStr [t ! nat_of_digits part]
          else if part = ''length'' then JNum (int (length t))
          else JUndefined
      | _ \<Rightarrow> JUndefined)"

definition getValueType :: "jsvalue \<Rightarrow> ValueType" where
  "getValueType v =
     (case v of
        JNull \<Rightarrow> VT_null
      | JArr xs \<Rightarrow> VT_array
      | JStr s \<Rightarrow> VT_string
      | JNum n \<Rightarrow> VT_number
      | JBool b \<Rightarrow> VT_boolean
      | JObj fs \<Rightarrow> VT_object
      | JUndefined \<Rightarrow> VT_string)"

definition make_key :: "string \<Rightarrow> jsvalue \<Rightarrow> ValueType \<Rightarrow> ValueKey" where
  "make_key pfx v ty =
     \<lparr> vk_path = pfx, vk_fullPath = ''.Values.'' @ pfx, vk_value = v, vk_type = ty \<rparr>"

function (sequential) flattenValues :: "jsvalue \<Rightarrow> string \<Rightarrow> ValueKey list \<Rightarrow> ValueKey list"
and flatten_items :: "jsvalue list \<Rightarrow> nat \<Rightarrow> string \<Rightarrow> ValueKey list \<Rightarrow> ValueKey list"
and flatten_fields :: "(string \<times> jsvalue) list \<Rightarrow> string \<Rightarrow> ValueKey list \<Rightarrow> ValueKey list" where
  \<comment> \<open>\<open>flatten_items\<close> is the \<open>obj.forEach((item, index) => ...)\<close> loop from \<open>index\<close> on,
      \<open>flatten_fields\<close> the \<open>for (const key of Object.keys(record))\<close> loop; \<open>result\<close> is the
      accumulator all calls push to\<close>
  "flattenValues JNull pfx result = result"
| "flattenValues JUndefined pfx result = result"
| "flattenValues (JBool b) pfx result = result @ [make_key pfx (JBool b) (getValueType (JBool b))]"
| "flattenValues (JNum n) pfx result = result @ [make_key pfx (JNum n) (getValueType (JNum n))]"
| "flattenValues (JStr s) pfx result = result @ [make_key pfx (JStr s) (getValueType (JStr s))]"
| "flattenValues (JArr xs) pfx result =
     flatten_items xs 0 pfx (result @ [make_key pfx (JArr xs) VT_array])"
| "flattenValues (JObj fs) pfx result =
     flatten_fields fs pfx (if pfx \<noteq> [] then result @ [make_key pfx (JObj fs) VT_object] else result)"
| "flatten_items [] index pfx result = result"
| "flatten_items (item # items) index pfx result =
     flatten_items items (Suc index) pfx
       (flattenValues item
          (if pfx \<noteq> [] then pfx @ ''['' @ string_of_nat index @ '']''
           else ''['' @ string_of_nat index @ '']'')
          result)"
| "flatten_fields [] pfx result = result"
| "flatten_fields ((key, v) # fs) pfx result =
     flatten_fields fs pfx
       (flattenValues v (if pfx \<noteq> [] then pfx @ ''.'' @ key else key) result)"
  by pat_completeness auto
termination
  by (relation "measure (\<lambda>x. case x of
                   Inl (v, p, r) \<Rightarrow> size v
                 | Inr (Inl (items, i, p, r)) \<Rightarrow> size_list size items
                 | Inr (Inr (fs, p, r)) \<Rightarrow> size_list (size_prod (\<lambda>k. 0) size) fs)") auto

fun walk_parts :: "jsvalue \<Rightarrow> string list \<Rightarrow> jsvalue" where
  \<comment> \<open>the \<open>for (const part of parts)\<close> loop of \<open>getValueByPath\<close>\<close>
  "walk_parts current [] = current"
| "walk_parts current (part # parts) =
     (case current of
        JObj fs \<Rightarrow> walk_parts (js_get current part) parts
      | JArr xs \<Rightarrow> walk_parts (js_get current part) parts
      | _ \<Rightarrow> JUndefined)"

definition getValueByPath :: "jsvalue \<Rightarrow> string \<Rightarrow> jsvalue" where
  "getValueByPath obj path = walk_parts obj (js_split (CHR ''.'') path)"


section \<open>Chart metadata and the chart assembler\<close>

record ChartDependency =
  cd_name :: string
  cd_version :: string
  cd_repository :: "string option"
  cd_condition :: "string option"
  cd_alias :: "string option"

record ChartYaml =
  cy_name :: string
  cy_version :: string
  cy_apiVersion :: string
  cy_description :: "string option"
  cy_type :: "string option"
  cy_appVersion :: "string option"
  cy_dependencies :: "ChartDependency list option"

datatype FileType = FT_chart | FT_values | FT_template | FT_helper | FT_notes | FT_other

record HelmFile =
  hf_path :: string
  hf_name :: string
  hf_type :: FileType
  hf_content :: string

record HelmChart =
  hc_name :: string
  hc_version :: string
  hc_description :: "string option"
  hc_files :: "HelmFile list"
  hc_values :: ValuesData
  hc_chartYaml :: ChartYaml
  hc_references :: "Reference list"
  hc_helpers :: "HelperDefinition list"
  hc_dependencies :: "ChartDependency list"

text \<open>
  \<open>yaml.load\<close> of js-yaml is a parameter of the parsers: \<open>None\<close> stands for the
  \<open>YAMLException\<close> it throws on malformed text.
\<close>

type_synonym yaml_load = "string \<Rightarrow> jsvalue option"

definition js_member :: "jsvalue \<Rightarrow> string \<Rightarrow> js_error + jsvalue" where
  \<comment> \<open>\<open>v.key\<close>: reading a property of \<open>undefined\<close> or \<open>null\<close> throws a \<open>TypeError\<close>\<close>
  "js_member v key = (if v = JUndefined \<or> v = JNull then Inl TypeError else Inr (js_get v key))"

definition string_or :: "jsvalue \<Rightarrow> string \<Rightarrow> string" where
  \<comment> \<open>\<open>String(v || dflt)\<close>\<close>
  "string_or v dflt = (if js_truthy v then js_String v else dflt)"

definition string_opt :: "jsvalue \<Rightarrow> string option" where
  \<comment> \<open>\<open>v ? String(v) : undefined\<close>\<close>
  "string_opt v = (if js_truthy v then Some (js_String v) else None)"

fun parseDependencyList :: "jsvalue list \<Rightarrow> js_error + ChartDependency list" where
  \<comment> \<open>the \<open>deps.map\<close> of \<open>parseDependencies\<close>; an item that is \<open>null\<close> makes \<open>d.name\<close> throw\<close>
  "parseDependencyList [] = Inr []"
| "parseDependencyList (d # ds) =
     (if d = JUndefined \<or> d = JNull then Inl TypeError
      else (case parseDependencyList ds of
              Inl e \<Rightarrow> Inl e
            | Inr rest \<Rightarrow>
                Inr (\<lparr> cd_name = string_or (js_get d ''name'') [],
                       cd_version = string_or (js_get d ''version'') [],
                       cd_repository = string_opt (js_get d ''repository''),
                       cd_condition = string_opt (js_get d ''condition''),
                       cd_alias = string_opt (js_get d ''alias'') \<rparr> # rest)))"

definition parseDependencies :: "jsvalue \<Rightarrow> js_error + ChartDependency list" where
  "parseDependencies deps = (case deps of JArr ds \<Rightarrow> parseDependencyList ds | _ \<Rightarrow> Inr [])"

definition parseChartYaml :: "yaml_load \<Rightarrow> string \<Rightarrow> js_error + ChartYaml" where
  \<comment> \<open>no \<open>try\<close> surrounds \<open>yaml.load\<close> here\<close>
  "parseChartYaml load content =
     (case load content of
        None \<Rightarrow> Inl YAMLException
      | Some parsed \<Rightarrow>
          if parsed = JUndefined \<or> parsed = JNull then Inl TypeError
          else (case parseDependencies (js_get parsed ''dependencies'') of
                  Inl e \<Rightarrow> Inl e
                | Inr deps \<Rightarrow>
                    Inr \<lparr> cy_name = string_or (js_get parsed ''name'') ''unknown'',
                          cy_version = string_or (js_get parsed ''version'') ''0.0.0'',
                          cy_apiVersion = string_or (js_get parsed ''apiVersion'') ''v2'',
                          cy_description = string_opt (js_get parsed ''description''),
                          cy_type = string_opt (js_get parsed ''type''),
                          cy_appVersion = string_opt (js_get parsed ''appVersion''),
                          cy_dependencies = Some deps \<rparr>))"

definition parseValuesYaml :: "yaml_load \<Rightarrow> string \<Rightarrow> ValuesData" where
  \<comment> \<open>\<open>try { raw = yaml.load(content) || {} } catch { raw = {} }\<close>\<close>
  "parseValuesYaml load content =
     (let raw = (case load content of
                   None \<Rightarrow> JObj []
                 | Some v \<Rightarrow> if js_truthy v then v else JObj [])
      in \<lparr> vd_raw = raw, vd_flatKeys = flattenValues raw [] [] \<rparr>)"

fun findIndex :: "('a \<Rightarrow> bool) \<Rightarrow> 'a list \<Rightarrow> int" where
  \<comment> \<open>\<open>Array.prototype.findIndex\<close>: \<open>-1\<close> when no element satisfies the predicate\<close>
  "findIndex P [] = - 1"
| "findIndex P (x # xs) =
     (if P x then 0 else (let i = findIndex P xs in if i < 0 then - 1 else i + 1))"

definition normalizePath :: "string \<Rightarrow> string" where
  "normalizePath path =
     (let normalized = map (\<lambda>c. if c = CHR 0x5C then CHR ''/'' else c)
                           (dropWhile (\<lambda>c. c = CHR ''/'') path);
          parts = js_split (CHR ''/'') normalized
      in if length parts > 1 then
           (let chartIndicators = [''Chart.yaml'', ''Chart.yml'', ''values.yaml'', ''values.yml'', ''templates''];
                hasChartIndicator = list_ex (\<lambda>p. p \<in> set chartIndicators) parts
            in if hasChartIndicator \<and> length parts > 1 then
                 (let chartYamlIndex = findIndex (\<lambda>p. p = ''Chart.yaml'' \<or> p = ''Chart.yml'') parts
                  in if chartYamlIndex > 0 then js_join ''/'' (drop (nat (chartYamlIndex - 1 + 1)) parts)
                     else js_join ''/'' (drop 1 parts))
               else normalized)
         else normalized)"

definition getFileName :: "string \<Rightarrow> string" where
  "getFileName path = last (js_split (CHR ''/'') path)"

definition determineFileType :: "string \<Rightarrow> FileType" where
  "determineFileType path =
     (let lowerPath = js_toLowerCase path;
          fileName = js_toLowerCase (getFileName path)
      in if fileName = ''chart.yaml'' \<or> fileName = ''chart.yml'' then FT_chart
         else if fileName = ''values.yaml'' \<or> fileName = ''values.yml'' then FT_values
         else if js_endsWith fileName ''.tpl'' then FT_helper
         else if fileName = ''notes.txt'' then FT_notes
         else if js_includes lowerPath ''templates/''
                 \<and> (js_endsWith fileName ''.yaml'' \<or> js_endsWith fileName ''.yml'') then FT_template
         else FT_other)"

definition isRelevantFile :: "string \<Rightarrow> bool" where
  \<comment> \<open>the statements in the order of the source: the two exclusions come after the three
      \<open>return true\<close>\<close>
  "isRelevantFile path =
     (let lowerPath = js_toLowerCase path;
          fileName = js_toLowerCase (getFileName path)
      in if fileName = ''chart.yaml'' \<or> fileName = ''chart.yml'' then True
         else if fileName = ''values.yaml'' \<or> fileName = ''values.yml'' then True
         else if js_includes lowerPath ''templates/''
                 \<and> (js_endsWith fileName ''.yaml'' \<or> js_endsWith fileName ''.yml''
                      \<or> js_endsWith fileName ''.tpl'' \<or> fileName = ''notes.txt'') then True
         else if js_startsWith fileName ''.'' then False
         else if js_includes lowerPath ''charts/'' then False
         else False)"

record parse_state =
  ps_helmFiles :: "HelmFile list"
  ps_chartYaml :: "ChartYaml option"
  ps_values :: ValuesData
  ps_allReferences :: "Reference list"
  ps_allHelpers :: "HelperDefinition list"

definition parse_file :: "yaml_load \<Rightarrow> string \<Rightarrow> string \<Rightarrow> parse_state \<Rightarrow> js_error + parse_state" where
  \<comment> \<open>one turn of the loop \<open>for (const [rawPath, content] of files.entries())\<close>\<close>
  "parse_file load rawPath content st =
     (let path = normalizePath rawPath;
          name = getFileName path;
          fileType = determineFileType path
      in if \<not> isRelevantFile path then Inr st
         else
           (let helmFile = \<lparr> hf_path = path, hf_name = name, hf_type = fileType, hf_content = content \<rparr>;
                st1 = st\<lparr> ps_helmFiles := ps_helmFiles st @ [helmFile] \<rparr>
            in case fileType of
                 FT_chart \<Rightarrow>
                   (case parseChartYaml load content of
                      Inl e \<Rightarrow> Inl e
                    | Inr cy \<Rightarrow> Inr (st1\<lparr> ps_chartYaml := Some cy \<rparr>))
               | FT_values \<Rightarrow> Inr (st1\<lparr> ps_values := parseValuesYaml load content \<rparr>)
               | FT_template \<Rightarrow>
                   Inr (st1\<lparr> ps_allReferences := ps_allReferences st1 @ extractReferences content path \<rparr>)
               | FT_helper \<Rightarrow>
                   Inr (st1\<lparr> ps_allHelpers := ps_allHelpers st1 @ extractHelperDefinitions content path,
                              ps_allReferences := ps_allReferences st1 @ extractReferences content path \<rparr>)
               | FT_notes \<Rightarrow>
                   Inr (st1\<lparr> ps_allReferences := ps_allReferences st1 @ extractReferences content path \<rparr>)
               | FT_other \<Rightarrow> Inr st1))"

fun parse_files :: "yaml_load \<Rightarrow> (string \<times> string) list \<Rightarrow> parse_state \<Rightarrow> js_error + parse_state" where
  "parse_files load [] st = Inr st"
| "parse_files load ((rawPath, content) # files) st =
     (case parse_file load rawPath content st of
        Inl e \<Rightarrow> Inl e
      | Inr st' \<Rightarrow> parse_files load files st')"

definition parseHelmChart :: "yaml_load \<Rightarrow> (string \<times> string) list \<Rightarrow> js_error + HelmChart" where
  \<comment> \<open>the \<open>Map\<close> of files is the list of its entries in insertion order; an exception of the
      loop body leaves the function\<close>
  "parseHelmChart load files =
     (case parse_files load files
             \<lparr> ps_helmFiles = [], ps_chartYaml = None,
               ps_values = \<lparr> vd_raw = JObj [], vd_flatKeys = [] \<rparr>,
               ps_allReferences = [], ps_allHelpers = [] \<rparr> of
        Inl e \<Rightarrow> Inl e
      | Inr st \<Rightarrow>
          (let chartYaml = (case ps_chartYaml st of
                              None \<Rightarrow> \<lparr> cy_name = ''unknown-chart'', cy_version = ''0.0.0'',
                                         cy_apiVersion = ''v2'', cy_description = None, cy_type = None,
                                         cy_appVersion = None, cy_dependencies = None \<rparr>
                            | Some cy \<Rightarrow> cy)
           in Inr \<lparr> hc_name = cy_name chartYaml,
                    hc_version = cy_version chartYaml,
                    hc_description = cy_description chartYaml,
                    hc_files = ps_helmFiles st,
                    hc_values = ps_values st,
                    hc_chartYaml = chartYaml,
                    hc_references = ps_allReferences st,
                    hc_helpers = ps_allHelpers st,
                    hc_dependencies = (case cy_dependencies chartYaml of None \<Rightarrow> [] | Some ds \<Rightarrow> ds) \<rparr>))"

section \<open>Graph builder\<close>

text \<open>
  The positions of the nodes are JavaScript numbers (IEEE doubles). Their arithmetic is
  not fixed here: every function of the layout takes the operations it uses as a record
  \<open>R\<close>, together with \<open>String.prototype.localeCompare\<close>, whose result depends on the
  locale of the host. What is proved about the layout therefore holds for the arithmetic
  of the host, whatever its rounding.
\<close>

record 'n runtime =
  js_of_nat :: "nat \<Rightarrow> 'n"  \<comment> \<open>the number denoted by a non-negative integer literal, index or length\<close>
  js_add :: "'n \<Rightarrow> 'n \<Rightarrow> 'n"
  js_sub :: "'n \<Rightarrow> 'n \<Rightarrow> 'n"
  js_mul :: "'n \<Rightarrow> 'n \<Rightarrow> 'n"
  js_div :: "'n \<Rightarrow> 'n \<Rightarrow> 'n"
  js_min :: "'n \<Rightarrow> 'n \<Rightarrow> 'n"  \<comment> \<open>\<open>Math.min\<close>\<close>
  js_max :: "'n \<Rightarrow> 'n \<Rightarrow> 'n"  \<comment> \<open>\<open>Math.max\<close>\<close>
  js_infinity :: "'n"
  js_neg_infinity :: "'n"
  js_positive :: "'n \<Rightarrow> bool"  \<comment> \<open>\<open>v > 0\<close>, the test a sort makes on the result of its comparator\<close>
  js_num_truthy :: "'n \<Rightarrow> bool"  \<comment> \<open>false for \<open>0\<close>, \<open>-0\<close> and \<open>NaN\<close>\<close>
  js_localeCompare :: "string \<Rightarrow> string \<Rightarrow> int"

datatype NodeType = NT_file | NT_value | NT_chart | NT_release | NT_helper

record NodeData =
  nd_label :: string
  nd_fileType :: "FileType option"
  nd_filePath :: "string option"
  nd_valuePath :: "string option"
  nd_valueType :: "string option"
  nd_helperName :: "string option"
  nd_referenceCount :: "nat option"
  nd_isHighlighted :: "bool option"

record 'n Position =
  pos_x :: 'n
  pos_y :: 'n

record 'n GraphNode =
  gn_id :: string
  gn_type :: NodeType
  gn_position :: "'n Position"
  gn_data :: NodeData

record EdgeData =
  ed_referenceType :: ReferenceType
  ed_expression :: string

record GraphEdge =
  ge_id :: string
  ge_source :: string
  ge_target :: string
  ge_label :: "string option"
  ge_type :: "string option"
  ge_animated :: "bool option"
  ge_data :: "EdgeData option"

record 'n GraphData =
  gd_nodes :: "'n GraphNode list"
  gd_edges :: "GraphEdge list"

definition empty_data :: "string \<Rightarrow> NodeData" where
  \<comment> \<open>a \<open>data\<close> object with a label and no optional member\<close>
  "empty_data label =
     \<lparr> nd_label = label, nd_fileType = None, nd_filePath = None, nd_valuePath = None,
       nd_valueType = None, nd_helperName = None, nd_referenceCount = None, nd_isHighlighted = None \<rparr>"

definition createFileNode :: "string \<Rightarrow> string \<Rightarrow> FileType \<Rightarrow> 'n \<Rightarrow> 'n \<Rightarrow> 'n GraphNode" where
  "createFileNode path name fileType x y =
     \<lparr> gn_id = ''file:'' @ path, gn_type = NT_file, gn_position = \<lparr> pos_x = x, pos_y = y \<rparr>,
       gn_data = (empty_data name)\<lparr> nd_fileType := Some fileType, nd_filePath := Some path \<rparr> \<rparr>"

definition createValueNode :: "string \<Rightarrow> string \<Rightarrow> 'n \<Rightarrow> 'n \<Rightarrow> 'n GraphNode" where
  "createValueNode path label x y =
     \<lparr> gn_id = ''value:'' @ path, gn_type = NT_value, gn_position = \<lparr> pos_x = x, pos_y = y \<rparr>,
       gn_data = (empty_data label)\<lparr> nd_valuePath := Some path \<rparr> \<rparr>"

definition createHelperNode :: "string \<Rightarrow> 'n \<Rightarrow> 'n \<Rightarrow> 'n GraphNode" where
  "createHelperNode name x y =
     \<lparr> gn_id = ''helper:'' @ name, gn_type = NT_helper, gn_position = \<lparr> pos_x = x, pos_y = y \<rparr>,
       gn_data = (empty_data name)\<lparr> nd_helperName := Some name \<rparr> \<rparr>"

definition createReleaseNode :: "'n \<Rightarrow> 'n \<Rightarrow> 'n GraphNode" where
  "createReleaseNode x y =
     \<lparr> gn_id = ''release:info'', gn_type = NT_release, gn_position = \<lparr> pos_x = x, pos_y = y \<rparr>,
       gn_data = empty_data ''.Release'' \<rparr>"

definition createEdge :: "Reference \<Rightarrow> HelmChart \<Rightarrow> GraphEdge option" where
  \<comment> \<open>\<open>None\<close> is the \<open>null\<close> of the source: for the reference types without a node type, and
      for an empty \<open>targetId\<close>, which only the \<open>chart\<close> case can produce\<close>
  "createEdge ref chart =
     (let sourceId = ''file:'' @ rs_file (ref_source ref);
          targetId =
            (case ref_type ref of
               RT_values \<Rightarrow> Some (''value:'' @ rt_path (ref_target ref))
             | RT_include \<Rightarrow> Some (''helper:'' @ rt_path (ref_target ref))
             | RT_template \<Rightarrow> Some (''helper:'' @ rt_path (ref_target ref))
             | RT_chart \<Rightarrow>
                 (case find (\<lambda>f. hf_type f = FT_chart) (hc_files chart) of
                    Some chartFile \<Rightarrow> Some (''file:'' @ hf_path chartFile)
                  | None \<Rightarrow> Some [])
             | RT_release \<Rightarrow> Some ''release:info''
             | RT_files \<Rightarrow> None
             | RT_capabilities \<Rightarrow> None)
      in case targetId of
           None \<Rightarrow> None
         | Some t \<Rightarrow>
             if t = [] then None
             else Some \<lparr> ge_id = ref_id ref, ge_source = sourceId, ge_target = t,
                         ge_label = Some (ref_expression ref), ge_type = Some ''smoothstep'',
                         ge_animated = Some False,
                         ge_data = Some \<lparr> ed_referenceType = ref_type ref,
                                          ed_expression = ref_expression ref \<rparr> \<rparr>)"

definition unique_in_order :: "'a list \<Rightarrow> 'a list" where
  \<comment> \<open>\<open>Array.from\<close> of a \<open>Set\<close> filled in the order of the list: first occurrences only\<close>
  "unique_in_order xs = foldl (\<lambda>acc x. if x \<in> set acc then acc else acc @ [x]) [] xs"

definition getReferencedValuePaths :: "HelmChart \<Rightarrow> string list" where
  "getReferencedValuePaths chart =
     unique_in_order (map (\<lambda>ref. rt_path (ref_target ref))
                          (filter (\<lambda>ref. ref_type ref = RT_values) (hc_references chart)))"

subsection \<open>Layout\<close>

fun insort_by :: "('a \<Rightarrow> 'a \<Rightarrow> bool) \<Rightarrow> 'a \<Rightarrow> 'a list \<Rightarrow> 'a list" where
  "insort_by after x [] = [x]"
| "insort_by after x (y # ys) = (if after x y then y # insort_by after x ys else x # y # ys)"

definition js_sort :: "('a \<Rightarrow> 'a \<Rightarrow> bool) \<Rightarrow> 'a list \<Rightarrow> 'a list" where
  \<comment> \<open>\<open>Array.prototype.sort(compare)\<close>, with \<open>after a b\<close> for \<open>compare(a, b) > 0\<close>. The sort of
      ECMAScript is stable; for a consistent comparator its result is the one computed here
      by insertion, where an element moves behind those it is strictly greater than.\<close>
  "js_sort after xs = foldr (insort_by after) xs []"

type_synonym adjacency = "string \<rightharpoonup> string list"

definition neighbours :: "adjacency \<Rightarrow> string \<Rightarrow> string list" where
  \<comment> \<open>\<open>m.get(id) || []\<close>\<close>
  "neighbours m k = (case m k of None \<Rightarrow> [] | Some l \<Rightarrow> l)"

definition push_to :: "adjacency \<Rightarrow> string \<Rightarrow> string \<Rightarrow> adjacency" where
  \<comment> \<open>\<open>const l = m.get(k) || []; l.push(v); m.set(k, l)\<close>\<close>
  "push_to m k v = m(k \<mapsto> neighbours m k @ [v])"

definition outgoingEdges :: "GraphEdge list \<Rightarrow> adjacency" where
  "outgoingEdges edges = fold (\<lambda>edge m. push_to m (ge_source edge) (ge_target edge)) edges Map.empty"

definition incomingEdges :: "GraphEdge list \<Rightarrow> adjacency" where
  "incomingEdges edges = fold (\<lambda>edge m. push_to m (ge_target edge) (ge_source edge)) edges Map.empty"

definition column_x :: "nat list" where
  "column_x = [0, 500, 1000, 1600]"

definition verticalSpacing :: nat where
  "verticalSpacing = 100"

definition groupPadding :: nat where
  "groupPadding = 50"

definition columnIndex :: "'n GraphNode \<Rightarrow> nat" where
  "columnIndex node =
     (if gn_type node = NT_file then
        (if nd_fileType (gn_data node) = Some FT_chart \<or> nd_fileType (gn_data node) = Some FT_values
         then 1 else 0)
      else if gn_type node = NT_chart \<or> gn_type node = NT_release then 1
      else if gn_type node = NT_value then 2
      else if gn_type node = NT_helper then 3
      else 0)"

definition columnNodes :: "'n GraphNode list \<Rightarrow> 'n GraphNode list list" where
  \<comment> \<open>the four arrays filled by \<open>columnNodes[columnIndex].push(node)\<close>\<close>
  "columnNodes nodes = map (\<lambda>c. filter (\<lambda>node. columnIndex node = c) nodes) [0, 1, 2, 3]"

definition connections :: "adjacency \<Rightarrow> adjacency \<Rightarrow> string \<Rightarrow> nat" where
  "connections outgoing incoming k = length (neighbours outgoing k) + length (neighbours incoming k)"

definition sortByConnections :: "adjacency \<Rightarrow> adjacency \<Rightarrow> 'n GraphNode list \<Rightarrow> 'n GraphNode list" where
  \<comment> \<open>the comparator is \<open>bConnections - aConnections\<close>\<close>
  "sortByConnections outgoing incoming col =
     js_sort (\<lambda>a b. connections outgoing incoming (gn_id a) < connections outgoing incoming (gn_id b)) col"

type_synonym 'n positions = "string \<rightharpoonup> 'n Position"

definition row_y :: "'n runtime \<Rightarrow> nat \<Rightarrow> 'n" where
  \<comment> \<open>\<open>index * DEFAULT_LAYOUT.verticalSpacing\<close>\<close>
  "row_y R index = js_mul R (js_of_nat R index) (js_of_nat R verticalSpacing)"

definition initialPositions :: "'n runtime \<Rightarrow> 'n GraphNode list list \<Rightarrow> 'n positions" where
  "initialPositions R cols =
     fold (\<lambda>(colIndex, col) pos.
             fold (\<lambda>(rowIndex, node) pos'.
                     pos'(gn_id node \<mapsto> \<lparr> pos_x = js_of_nat R (column_x ! colIndex), pos_y = row_y R rowIndex \<rparr>))
                  (enumerate 0 col) pos)
          (enumerate 0 cols) Map.empty"

definition num_or_zero :: "'n runtime \<Rightarrow> 'n option \<Rightarrow> 'n" where
  \<comment> \<open>\<open>v || 0\<close> for a number that may be \<open>undefined\<close>\<close>
  "num_or_zero R v = (case v of None \<Rightarrow> js_of_nat R 0 | Some n \<Rightarrow> if js_num_truthy R n then n else js_of_nat R 0)"

definition barycenter :: "'n runtime \<Rightarrow> 'n positions \<Rightarrow> adjacency \<Rightarrow> adjacency \<Rightarrow> string \<Rightarrow> 'n" where
  "barycenter R pos incoming outgoing k =
     (let connectedNodes = neighbours incoming k @ neighbours outgoing k in
      if connectedNodes = [] then js_infinity R
      else js_div R
             (foldl (\<lambda>acc connectedId. js_add R acc (num_or_zero R (map_option pos_y (pos connectedId))))
                    (js_of_nat R 0) connectedNodes)
             (js_of_nat R (length connectedNodes)))"

definition optimizeColumnOrder ::
  "'n runtime \<Rightarrow> 'n GraphNode list \<Rightarrow> 'n positions \<Rightarrow> adjacency \<Rightarrow> adjacency \<Rightarrow> 'n positions" where
  \<comment> \<open>the array \<open>columnNodes\<close> itself keeps its order: only the positions change\<close>
  "optimizeColumnOrder R col pos incoming outgoing =
     (let barycenters = map (\<lambda>node. (node, barycenter R pos incoming outgoing (gn_id node))) col;
          sorted = js_sort (\<lambda>a b. js_positive R (js_sub R (snd a) (snd b))) barycenters;
          x = (case col of
                 [] \<Rightarrow> js_of_nat R 0
               | first # rest \<Rightarrow> num_or_zero R (map_option pos_x (pos (gn_id first))))
      in fold (\<lambda>(index, (node, b)) pos'. pos'(gn_id node \<mapsto> \<lparr> pos_x = x, pos_y = row_y R index \<rparr>))
              (enumerate 0 sorted) pos)"

definition refineSweep ::
  "'n runtime \<Rightarrow> 'n GraphNode list list \<Rightarrow> adjacency \<Rightarrow> adjacency \<Rightarrow> 'n positions \<Rightarrow> 'n positions" where
  \<comment> \<open>one iteration of the refinement: columns 1, 2, 3 and then 2, 1, 0\<close>
  "refineSweep R cols incoming outgoing pos =
     fold (\<lambda>colIndex pos'. optimizeColumnOrder R (cols ! colIndex) pos' incoming outgoing)
          ([1 ..< length cols] @ rev [0 ..< length cols - 1]) pos"

definition valuePathOf :: "'n GraphNode \<Rightarrow> string" where
  \<comment> \<open>\<open>node.data.valuePath || ''\<close>\<close>
  "valuePathOf node = (case nd_valuePath (gn_data node) of None \<Rightarrow> [] | Some p \<Rightarrow> p)"

fun push_group :: "string \<Rightarrow> 'a \<Rightarrow> (string \<times> 'a list) list \<Rightarrow> (string \<times> 'a list) list" where
  \<comment> \<open>\<open>groups.set(k, (groups.get(k) || []).concat([v]))\<close> on a \<open>Map\<close> kept as the list of its
      entries in insertion order\<close>
  "push_group k v [] = [(k, [v])]"
| "push_group k v ((k', vs) # gs) = (if k' = k then (k', vs @ [v]) # gs else (k', vs) # push_group k v gs)"

definition groupValueNodesByPrefix :: "'n runtime \<Rightarrow> 'n GraphNode list \<Rightarrow> 'n GraphNode list list" where
  "groupValueNodesByPrefix R nodes =
     (let groups = fold (\<lambda>node gs.
                           let path = valuePathOf node;
                               first = hd (js_split (CHR ''.'') path);
                               topLevel = (if first = [] then ''other'' else first)
                           in push_group topLevel node gs)
                        nodes []
      in map snd (js_sort (\<lambda>a b. js_localeCompare R (fst a) (fst b) > 0) groups))"

definition pathDepth :: "string \<Rightarrow> nat" where
  "pathDepth path = length (js_split (CHR ''.'') path)"

definition sortGroup :: "'n runtime \<Rightarrow> 'n GraphNode list \<Rightarrow> 'n GraphNode list" where
  \<comment> \<open>by depth of the path, then by \<open>localeCompare\<close>\<close>
  "sortGroup R grp =
     js_sort (\<lambda>a b. if pathDepth (valuePathOf a) \<noteq> pathDepth (valuePathOf b)
                     then pathDepth (valuePathOf a) > pathDepth (valuePathOf b)
                     else js_localeCompare R (valuePathOf a) (valuePathOf b) > 0)
             grp"

definition groupStep :: "'n runtime \<Rightarrow> 'n" where
  \<comment> \<open>\<open>DEFAULT_LAYOUT.verticalSpacing * 0.7\<close>; the literal \<open>0.7\<close> is the double nearest to
      \<open>7 / 10\<close>, which is also what the division of 7 by 10 returns\<close>
  "groupStep R = js_mul R (js_of_nat R verticalSpacing) (js_div R (js_of_nat R 7) (js_of_nat R 10))"

fun placeGroup :: "'n runtime \<Rightarrow> 'n \<Rightarrow> (nat \<times> 'n GraphNode) list \<Rightarrow> 'n positions \<Rightarrow> js_error + 'n positions" where
  \<comment> \<open>the \<open>group.forEach((node, idx) => ...)\<close> loop; \<open>nodePositions.get(node.id)!\<close> is read
      without a test, so an absent position makes \<open>pos.x\<close> throw\<close>
  "placeGroup R currentY [] pos = Inr pos"
| "placeGroup R currentY ((idx, node) # rest) pos =
     (case pos (gn_id node) of
        None \<Rightarrow> Inl TypeError
      | Some p \<Rightarrow>
          (let depth = (case nd_valuePath (gn_data node) of None \<Rightarrow> 1 | Some vp \<Rightarrow> pathDepth vp);
               indent = (if depth > 1 then js_of_nat R 30 else js_of_nat R 0)
           in placeGroup R currentY rest
                (pos(gn_id node \<mapsto>
                   \<lparr> pos_x = js_add R (pos_x p) indent,
                     pos_y = js_add R currentY (js_mul R (js_of_nat R idx) (groupStep R)) \<rparr>))))"

fun placeGroups :: "'n runtime \<Rightarrow> 'n \<Rightarrow> 'n GraphNode list list \<Rightarrow> 'n positions \<Rightarrow> js_error + 'n positions" where
  \<comment> \<open>the \<open>valueGroups.forEach\<close> loop with its running \<open>currentY\<close>\<close>
  "placeGroups R currentY [] pos = Inr pos"
| "placeGroups R currentY (grp # groups) pos =
     (let sorted = sortGroup R grp in
      case placeGroup R currentY (enumerate 0 sorted) pos of
        Inl e \<Rightarrow> Inl e
      | Inr pos' \<Rightarrow>
          placeGroups R
            (js_add R currentY
               (js_add R (js_mul R (js_of_nat R (length sorted)) (groupStep R)) (js_of_nat R groupPadding)))
            groups pos')"

definition columnSpan :: "'n runtime \<Rightarrow> 'n GraphNode list \<Rightarrow> 'n positions \<Rightarrow> 'n \<times> 'n" where
  \<comment> \<open>\<open>minY\<close> and \<open>maxY\<close> of a column\<close>
  "columnSpan R col pos =
     fold (\<lambda>node (minY, maxY).
             case pos (gn_id node) of
               None \<Rightarrow> (minY, maxY)
             | Some p \<Rightarrow> (js_min R minY (pos_y p), js_max R maxY (pos_y p)))
          col (js_infinity R, js_neg_infinity R)"

definition centerColumnsVertically :: "'n runtime \<Rightarrow> 'n GraphNode list list \<Rightarrow> 'n positions \<Rightarrow> 'n positions" where
  "centerColumnsVertically R cols pos =
     (let maxHeight =
            fold (\<lambda>col h. if col = [] then h
                           else (let (minY, maxY) = columnSpan R col pos in js_max R h (js_sub R maxY minY)))
                 cols (js_of_nat R 0)
      in fold (\<lambda>col pos'.
                 if col = [] then pos'
                 else (let (minY, maxY) = columnSpan R col pos';
                           colHeight = js_sub R maxY minY;
                           offset = js_sub R (js_div R (js_sub R maxHeight colHeight) (js_of_nat R 2)) minY
                       in fold (\<lambda>node pos''.
                                  case pos'' (gn_id node) of
                                    None \<Rightarrow> pos''
                                  | Some p \<Rightarrow> pos''(gn_id node \<mapsto> \<lparr> pos_x = pos_x p, pos_y = js_add R (pos_y p) offset \<rparr>))
                               col pos'))
              cols pos)"

definition layoutPositions :: "'n runtime \<Rightarrow> 'n GraphNode list \<Rightarrow> GraphEdge list \<Rightarrow> js_error + 'n positions" where
  \<comment> \<open>the body of \<open>autoOrganizeLayout\<close> up to its last statement: the final \<open>nodePositions\<close>\<close>
  "layoutPositions R nodes edges =
     (let outgoing = outgoingEdges edges;
          incoming = incomingEdges edges;
          cols = map (sortByConnections outgoing incoming) (columnNodes nodes);
          pos0 = initialPositions R cols;
          pos1 = ((refineSweep R cols incoming outgoing) ^^ 5) pos0;
          valueNodes = cols ! 2
      in case (if length valueNodes > 0
               then placeGroups R (js_of_nat R 0) (groupValueNodesByPrefix R valueNodes) pos1
               else Inr pos1) of
           Inl e \<Rightarrow> Inl e
         | Inr pos2 \<Rightarrow> Inr (centerColumnsVertically R cols pos2))"

definition applyPosition :: "'n positions \<Rightarrow> 'n GraphNode \<Rightarrow> 'n GraphNode" where
  \<comment> \<open>\<open>{ ...node, position: nodePositions.get(node.id) || node.position }\<close>\<close>
  "applyPosition pos node =
     node\<lparr> gn_position := (case pos (gn_id node) of None \<Rightarrow> gn_position node | Some p \<Rightarrow> p) \<rparr>"

definition autoOrganizeLayout :: "'n runtime \<Rightarrow> 'n GraphNode list \<Rightarrow> GraphEdge list \<Rightarrow> js_error + 'n GraphNode list" where
  "autoOrganizeLayout R nodes edges =
     (case layoutPositions R nodes edges of
        Inl e \<Rightarrow> Inl e
      | Inr pos \<Rightarrow> Inr (map (applyPosition pos) nodes))"

definition valueLabel :: "string \<Rightarrow> string" where
  \<comment> \<open>\<open>path.includes('.') ? path.split('.').pop() || path : path\<close>\<close>
  "valueLabel path =
     (if js_includes path ''.'' then
        (let l = last (js_split (CHR ''.'') path) in if l = [] then path else l)
      else path)"

definition graphNodes :: "'n runtime \<Rightarrow> HelmChart \<Rightarrow> 'n GraphNode list" where
  \<comment> \<open>the nodes \<open>buildGraphData\<close> pushes, in its order, all at \<open>(0, 0)\<close>\<close>
  "graphNodes R chart =
     (let zero = js_of_nat R 0 in
      map (\<lambda>file. createFileNode (hf_path file) (hf_name file) (hf_type file) zero zero)
          (filter (\<lambda>f. hf_type f = FT_template \<or> hf_type f = FT_helper \<or> hf_type f = FT_notes) (hc_files chart))
      @ (case find (\<lambda>f. hf_type f = FT_chart) (hc_files chart) of
           None \<Rightarrow> []
         | Some chartFile \<Rightarrow> [createFileNode (hf_path chartFile) (hf_name chartFile) FT_chart zero zero])
      @ [createReleaseNode zero zero]
      @ (case find (\<lambda>f. hf_type f = FT_values) (hc_files chart) of
           None \<Rightarrow> []
         | Some valuesFile \<Rightarrow> [createFileNode (hf_path valuesFile) (hf_name valuesFile) FT_values zero zero])
      @ map (\<lambda>path. createValueNode path (valueLabel path) zero zero) (getReferencedValuePaths chart)
      @ map (\<lambda>helper. createHelperNode (hd_name helper) zero zero) (hc_helpers chart))"

definition graphEdges :: "HelmChart \<Rightarrow> GraphEdge list" where
  \<comment> \<open>the edges \<open>buildGraphData\<close> pushes: one for every reference \<open>createEdge\<close> does not drop\<close>
  "graphEdges chart = List.map_filter (\<lambda>ref. createEdge ref chart) (hc_references chart)"

definition buildGraphData :: "'n runtime \<Rightarrow> HelmChart \<Rightarrow> js_error + 'n GraphData" where
  "buildGraphData R chart =
     (let nodes = graphNodes R chart;
          edges = graphEdges chart
      in case autoOrganizeLayout R nodes edges of
           Inl e \<Rightarrow> Inl e
         | Inr layoutedNodes \<Rightarrow> Inr \<lparr> gd_nodes = layoutedNodes, gd_edges = edges \<rparr>)"

section \<open>Drop validation\<close>

definition hasChartYaml :: "(string \<times> string) list \<Rightarrow> bool" where
  \<comment> \<open>the test of \<open>handleDrop\<close> on the keys of the collected files\<close>
  "hasChartYaml files =
     list_ex (\<lambda>path. js_endsWith (js_toLowerCase path) ''chart.yaml''
                     \<or> js_endsWith (js_toLowerCase path) ''chart.yml'')
             (map fst files)"

definition validateDrop :: "(string \<times> string) list \<Rightarrow> string + (string \<times> string) list" where
  \<comment> \<open>the end of \<open>handleDrop\<close>: \<open>Inl\<close> is the message given to \<open>setError\<close> (the parser is not
      called), \<open>Inr\<close> the files handed to \<open>onFilesDropped\<close>\<close>
  "validateDrop files =
     (if \<not> hasChartYaml files then Inl ''No Chart.yaml found. Please drop a valid Helm chart folder.''
      else Inr files)"

section \<open>Notions used in the statements and proofs\<close>

text \<open>
  A function on nodes that leaves the identity, the type and the data of every node alone.
\<close>

definition same_shape :: "('n GraphNode \<Rightarrow> 'n GraphNode) \<Rightarrow> bool" where
  "same_shape g = (\<forall>n. gn_id (g n) = gn_id n \<and> gn_type (g n) = gn_type n \<and> gn_data (g n) = gn_data n)"

text \<open>
  The references of a chart are sourced when each of them names, as its source file, a
  template, helper or notes file of the chart.
\<close>

definition references_sourced :: "HelmFile list \<Rightarrow> Reference list \<Rightarrow> bool" where
  "references_sourced files refs =
     (\<forall>r\<in>set refs. \<exists>f\<in>set files.
        hf_path f = rs_file (ref_source r)
        \<and> (hf_type f = FT_template \<or> hf_type f = FT_helper \<or> hf_type f = FT_notes))"

subsection \<open>Example charts\<close>

text \<open>
  A chart whose only template includes a helper that no file defines.
\<close>

definition dangling_files :: "(string \<times> string) list" where
  "dangling_files = [(''mychart/templates/deploy.yaml'', ''labels: {{ include '' @ [CHR 0x22] @ ''missing'' @ [CHR 0x22] @ '' . }}'')]"

definition dangling_chart :: HelmChart where
  "dangling_chart =
     \<lparr> hc_name = ''unknown-chart'', hc_version = ''0.0.0'', hc_description = None,
       hc_files = [\<lparr> hf_path = ''templates/deploy.yaml'', hf_name = ''deploy.yaml'', hf_type = FT_template,
                     hf_content = ''labels: {{ include '' @ [CHR 0x22] @ ''missing'' @ [CHR 0x22] @ '' . }}'' \<rparr>],
       hc_values = \<lparr> vd_raw = JObj [], vd_flatKeys = [] \<rparr>,
       hc_chartYaml = \<lparr> cy_name = ''unknown-chart'', cy_version = ''0.0.0'', cy_apiVersion = ''v2'',
                        cy_description = None, cy_type = None, cy_appVersion = None,
                        cy_dependencies = None \<rparr>,
       hc_references =
         [\<lparr> ref_id = ''templates/deploy.yaml:1:include:missing'', ref_type = RT_include,
             ref_source = \<lparr> rs_file = ''templates/deploy.yaml'', rs_line = 1 \<rparr>,
             ref_target = \<lparr> rt_type = TT_helper, rt_path = ''missing'' \<rparr>,
             ref_expression = ''{{ include '' @ [CHR 0x22] @ ''missing'' @ [CHR 0x22],
             ref_line = 1 \<rparr>],
       hc_helpers = [], hc_dependencies = [] \<rparr>"

text \<open>
  The first end-to-end scenario of the specification: three files, with the values
  \<open>yaml.load\<close> returns for the two YAML texts.
\<close>

definition scenario_files :: "(string \<times> string) list" where
  "scenario_files =
     [(''mychart/Chart.yaml'', ''name: mychart'' @ [CHR 0x0A] @ ''version: 1.0.0'' @ [CHR 0x0A] @ ''apiVersion: v2''),
      (''mychart/values.yaml'', ''replicaCount: 1''),
      (''mychart/templates/deploy.yaml'', ''replicas: {{ .Values.replicaCount }}'')]"

definition scenario_load :: yaml_load where
  "scenario_load content =
     (if content = ''name: mychart'' @ [CHR 0x0A] @ ''version: 1.0.0'' @ [CHR 0x0A] @ ''apiVersion: v2''
      then Some (JObj [(''name'', JStr ''mychart''), (''version'', JStr ''1.0.0''), (''apiVersion'', JStr ''v2'')])
      else if content = ''replicaCount: 1'' then Some (JObj [(''replicaCount'', JNum 1)])
      else None)"

definition scenario_chart :: HelmChart where
  "scenario_chart =
     \<lparr> hc_name = ''mychart'', hc_version = ''1.0.0'', hc_description = None,
       hc_files =
         [\<lparr> hf_path = ''Chart.yaml'', hf_name = ''Chart.yaml'', hf_type = FT_chart,
             hf_content = ''name: mychart'' @ [CHR 0x0A] @ ''version: 1.0.0'' @ [CHR 0x0A] @ ''apiVersion: v2'' \<rparr>,
          \<lparr> hf_path = ''values.yaml'', hf_name = ''values.yaml'', hf_type = FT_values,
             hf_content = ''replicaCount: 1'' \<rparr>,
          \<lparr> hf_path = ''templates/deploy.yaml'', hf_name = ''deploy.yaml'', hf_type = FT_template,
             hf_content = ''replicas: {{ .Values.replicaCount }}'' \<rparr>],
       hc_values =
         \<lparr> vd_raw = JObj [(''replicaCount'', JNum 1)],
           vd_flatKeys =
             [\<lparr> vk_path = ''replicaCount'', vk_fullPath = ''.Values.replicaCount'',
                 vk_value = JNum 1, vk_type = VT_number \<rparr>] \<rparr>,
       hc_chartYaml =
         \<lparr> cy_name = ''mychart'', cy_version = ''1.0.0'', cy_apiVersion = ''v2'',
           cy_description = None, cy_type = None, cy_appVersion = None, cy_dependencies = Some [] \<rparr>,
       hc_references =
         [\<lparr> ref_id = ''templates/deploy.yaml:1:values:replicaCount'', ref_type = RT_values,
             ref_source = \<lparr> rs_file = ''templates/deploy.yaml'', rs_line = 1 \<rparr>,
             ref_target = \<lparr> rt_type = TT_value, rt_path = ''replicaCount'' \<rparr>,
             ref_expression = ''.Values.replicaCount'', ref_line = 1 \<rparr>],
       hc_helpers = [], hc_dependencies = [] \<rparr>"

subsection \<open>Lines written as occurrences of values expressions\<close>

text \<open>
  A values expression is the text \<open>.Values\<close> followed by a chain of one or more segments,
  each \<open>.identifier\<close> or \<open>[expr]\<close> with \<open>expr\<close> not empty and free of \<open>]\<close>. The path of a
  chain is its text without the leading dot.
\<close>

datatype segment = Ident string | Bracket string

fun render_segment :: "segment \<Rightarrow> string" where
  "render_segment (Ident s) = CHR ''.'' # s"
| "render_segment (Bracket s) = CHR ''['' # s @ '']''"

definition wf_segment :: "segment \<Rightarrow> bool" where
  "wf_segment sg =
     (case sg of
        Ident s \<Rightarrow> s \<noteq> [] \<and> is_ident_start (hd s) \<and> list_all is_ident_char (tl s)
      | Bracket s \<Rightarrow> s \<noteq> [] \<and> CHR '']'' \<notin> set s)"

definition render_chain :: "segment list \<Rightarrow> string" where
  "render_chain segs = concat (map render_segment segs)"

fun chain_path :: "segment list \<Rightarrow> string" where
  "chain_path [] = []"
| "chain_path (Ident s # segs) = s @ render_chain segs"
| "chain_path (Bracket s # segs) = render_chain (Bracket s # segs)"

text \<open>
  A line is written as a list of occurrences, each the text before it (the gap) and its
  chain, and the text after the last one. \<open>starts_segment s\<close> says that a segment starts at
  the head of \<open>s\<close>, \<open>is_hit s\<close> that a values expression does. The line is well formed when
  no values expression starts in a gap or in the tail (a bare \<open>.Values\<close> which no segment
  follows may stand there), and every chain is the whole chain: no segment starts right
  after it, and its last identifier is not continued by an identifier character. So the
  occurrences of a well-formed line are the places where \<open>.Values\<close> and a segment stand
  outside every chain, each taken with all the segments that follow it.
\<close>

fun render_line :: "(string \<times> segment list) list \<Rightarrow> string \<Rightarrow> string" where
  "render_line [] tail = tail"
| "render_line ((gap, segs) # occs) tail = gap @ ''.Values'' @ render_chain segs @ render_line occs tail"

definition starts_segment :: "string \<Rightarrow> bool" where
  "starts_segment s =
     (case s of
        [] \<Rightarrow> False
      | c # rest \<Rightarrow>
          (c = CHR ''.'' \<and> rest \<noteq> [] \<and> is_ident_start (hd rest))
          \<or> (c = CHR ''['' \<and> rest \<noteq> [] \<and> hd rest \<noteq> CHR '']'' \<and> CHR '']'' \<in> set rest))"

definition is_hit :: "string \<Rightarrow> bool" where
  "is_hit s = (prefix ''.Values'' s \<and> starts_segment (drop 7 s))"

fun quiet_in :: "string \<Rightarrow> string \<Rightarrow> bool" where
  "quiet_in [] nxt = True"
| "quiet_in (c # cs) nxt = (\<not> is_hit ((c # cs) @ nxt) \<and> quiet_in cs nxt)"

definition chain_ends :: "segment list \<Rightarrow> string \<Rightarrow> bool" where
  "chain_ends segs nxt =
     (\<not> starts_segment nxt
      \<and> (case last segs of
            Ident s \<Rightarrow> nxt = [] \<or> \<not> is_ident_char (hd nxt)
          | Bracket s \<Rightarrow> True))"

fun wf_occurrences :: "(string \<times> segment list) list \<Rightarrow> string \<Rightarrow> bool" where
  "wf_occurrences [] tail = quiet_in tail []"
| "wf_occurrences ((gap, segs) # occs) tail =
     (quiet_in gap (''.Values'' @ render_chain segs @ render_line occs tail)
      \<and> segs \<noteq> [] \<and> list_all wf_segment segs
      \<and> chain_ends segs (render_line occs tail)
      \<and> wf_occurrences occs tail)"



definition expected_reference :: "string \<Rightarrow> nat \<Rightarrow> string \<times> segment list \<Rightarrow> Reference" where
  "expected_reference filePath lineNum occ =
     \<lparr> ref_id = filePath @ '':'' @ string_of_nat lineNum @ '':values:'' @ chain_path (snd occ),
       ref_type = RT_values,
       ref_source = \<lparr> rs_file = filePath, rs_line = lineNum \<rparr>,
       ref_target = \<lparr> rt_type = TT_value, rt_path = chain_path (snd occ) \<rparr>,
       ref_expression = ''.Values'' @ render_chain (snd occ),
       ref_line = lineNum \<rparr>"


subsection \<open>Flattened entries with their routes\<close>

text \<open>
  The route of a value in a configuration tree is the list of the object keys and array
  indices that lead to it from the root. \<open>flatten_routes\<close> is \<open>flattenValues\<close> written
  without the accumulator, each entry paired with the route of the value it records
  (\<open>flatten_routes_entries\<close> below: dropping the routes gives \<open>flattenValues\<close>).
  \<open>value_at\<close> follows a route, \<open>route_path\<close> is the path the flattening builds along it.
\<close>

datatype step = Key string | Index nat

function (sequential) flatten_routes :: "jsvalue \<Rightarrow> step list \<Rightarrow> string \<Rightarrow> (step list \<times> ValueKey) list"
and flatten_routes_items :: "jsvalue list \<Rightarrow> nat \<Rightarrow> step list \<Rightarrow> string \<Rightarrow> (step list \<times> ValueKey) list"
and flatten_routes_fields :: "(string \<times> jsvalue) list \<Rightarrow> step list \<Rightarrow> string \<Rightarrow> (step list \<times> ValueKey) list" where
  "flatten_routes JNull route pfx = []"
| "flatten_routes JUndefined route pfx = []"
| "flatten_routes (JBool b) route pfx = [(route, make_key pfx (JBool b) (getValueType (JBool b)))]"
| "flatten_routes (JNum n) route pfx = [(route, make_key pfx (JNum n) (getValueType (JNum n)))]"
| "flatten_routes (JStr s) route pfx = [(route, make_key pfx (JStr s) (getValueType (JStr s)))]"
| "flatten_routes (JArr xs) route pfx =
     (route, make_key pfx (JArr xs) VT_array) # flatten_routes_items xs 0 route pfx"
| "flatten_routes (JObj fs) route pfx =
     (if pfx \<noteq> [] then [(route, make_key pfx (JObj fs) VT_object)] else [])
     @ flatten_routes_fields fs route pfx"
| "flatten_routes_items [] index route pfx = []"
| "flatten_routes_items (item # items) index route pfx =
     flatten_routes item (route @ [Index index])
       (if pfx \<noteq> [] then pfx @ ''['' @ string_of_nat index @ '']''
        else ''['' @ string_of_nat index @ '']'')
     @ flatten_routes_items items (Suc index) route pfx"
| "flatten_routes_fields [] route pfx = []"
| "flatten_routes_fields ((key, v) # fs) route pfx =
     flatten_routes v (route @ [Key key]) (if pfx \<noteq> [] then pfx @ ''.'' @ key else key)
     @ flatten_routes_fields fs route pfx"
  by pat_completeness auto
termination
  by (relation "measure (\<lambda>x. case x of
                   Inl (v, rt, p) \<Rightarrow> size v
                 | Inr (Inl (items, i, rt, p)) \<Rightarrow> size_list size items
                 | Inr (Inr (fs, rt, p)) \<Rightarrow> size_list (size_prod (\<lambda>k. 0) size) fs)") auto

fun value_at :: "jsvalue \<Rightarrow> step list \<Rightarrow> jsvalue option" where
  "value_at v [] = Some v"
| "value_at v (Key k # steps) =
     (case v of
        JObj fs \<Rightarrow> (case map_of fs k of None \<Rightarrow> None | Some x \<Rightarrow> value_at x steps)
      | _ \<Rightarrow> None)"
| "value_at v (Index i # steps) =
     (case v of
        JArr xs \<Rightarrow> if i < length xs then value_at (xs ! i) steps else None
      | _ \<Rightarrow> None)"

fun route_path :: "string \<Rightarrow> step list \<Rightarrow> string" where
  "route_path p [] = p"
| "route_path p (Key k # steps) = route_path (if p \<noteq> [] then p @ ''.'' @ k else k) steps"
| "route_path p (Index i # steps) =
     route_path (if p \<noteq> [] then p @ ''['' @ string_of_nat i @ '']''
                 else ''['' @ string_of_nat i @ '']'') steps"

text \<open>
  A JavaScript object holds each key once: \<open>distinct_keys\<close> says so of every object of a
  tree. A route is plain when it is not empty, consists of object keys without a dot, and
  does not start with the empty key unless that key is the whole route.
\<close>

fun distinct_keys :: "jsvalue \<Rightarrow> bool"
and distinct_keys_items :: "jsvalue list \<Rightarrow> bool"
and distinct_keys_fields :: "(string \<times> jsvalue) list \<Rightarrow> bool" where
  "distinct_keys (JObj fs) = (distinct (map fst fs) \<and> distinct_keys_fields fs)"
| "distinct_keys (JArr xs) = distinct_keys_items xs"
| "distinct_keys JUndefined = True"
| "distinct_keys JNull = True"
| "distinct_keys (JBool b) = True"
| "distinct_keys (JNum n) = True"
| "distinct_keys (JStr s) = True"
| "distinct_keys_items [] = True"
| "distinct_keys_items (x # xs) = (distinct_keys x \<and> distinct_keys_items xs)"
| "distinct_keys_fields [] = True"
| "distinct_keys_fields ((k, v) # fs) = (distinct_keys v \<and> distinct_keys_fields fs)"

definition plain_route :: "step list \<Rightarrow> bool" where
  "plain_route route =
     (route \<noteq> []
      \<and> list_all (\<lambda>s. case s of Key k \<Rightarrow> CHR ''.'' \<notin> set k | Index i \<Rightarrow> False) route
      \<and> (length route = 1 \<or> hd route \<noteq> Key []))"

section \<open>The relevance filter\<close>

text \<open>
  C4. The claim: the relevance filter excludes hidden files and files under a \<open>charts/\<close>
  segment, in particular a hidden file under \<open>templates/\<close> and a subchart file under
  \<open>charts/.../templates/\<close>. In \<open>isRelevantFile\<close> the two exclusions stand behind the tests
  that return \<open>true\<close>, so they never decide anything: both files of the claim are hidden,
  respectively under \<open>charts/\<close>, and are admitted all the same.
\<close>

theorem isRelevantFile_admits_hidden_and_subchart:
  "js_startsWith (js_toLowerCase (getFileName ''templates/.hidden.yaml'')) ''.''
   \<and> isRelevantFile ''templates/.hidden.yaml''
   \<and> js_includes (js_toLowerCase ''charts/sub/templates/deploy.yaml'') ''charts/''
   \<and> isRelevantFile ''charts/sub/templates/deploy.yaml''"
  by code_simp

section \<open>The validation of a drop\<close>

text \<open>
  C8. The claim: a drop is accepted if and only if the filename of some path equals
  \<open>chart.yaml\<close> or \<open>chart.yml\<close>, ignoring case. \<open>handleDrop\<close> tests the end of the whole
  path instead, so the single file \<open>/mychart/mychart.yaml\<close>, whose filename is
  \<open>mychart.yaml\<close>, passes the validation and is handed to the parser.
\<close>

theorem validateDrop_accepts_suffix:
  "js_toLowerCase (getFileName ''/mychart/mychart.yaml'') = ''mychart.yaml''
   \<and> validateDrop [(''/mychart/mychart.yaml'', [])] = Inr [(''/mychart/mychart.yaml'', [])]"
  by code_simp

section \<open>Malformed chart metadata\<close>

lemma chart_yaml_path_facts:
  "normalizePath ''Chart.yaml'' = ''Chart.yaml''"
  "determineFileType ''Chart.yaml'' = FT_chart"
  "isRelevantFile ''Chart.yaml''"
  by code_simp+

text \<open>
  C2. The claim: chart assembly always returns a chart, malformed YAML in \<open>Chart.yaml\<close>
  being treated as an empty mapping. \<open>parseValuesYaml\<close> wraps \<open>yaml.load\<close> in a \<open>try\<close>,
  \<open>parseChartYaml\<close> does not: when \<open>yaml.load\<close> throws on the text of \<open>Chart.yaml\<close>, or
  returns \<open>undefined\<close> or \<open>null\<close> for it (an empty document), the exception leaves
  \<open>parseHelmChart\<close> and no chart is returned.
\<close>

theorem parseHelmChart_chart_yaml_throws:
  assumes "load content = None \<or> load content = Some JUndefined \<or> load content = Some JNull"
  shows "\<exists>e. parseHelmChart load [(''Chart.yaml'', content)] = Inl e"
  using assms
  by (auto simp: parseHelmChart_def parse_file_def parseChartYaml_def chart_yaml_path_facts Let_def)

theorem parseHelmChart_chart_yaml_throws_witness:
  "(\<lambda>c. None :: jsvalue option) ''name: ['' = None
   \<and> (\<exists>e. parseHelmChart (\<lambda>c. None) [(''Chart.yaml'', ''name: ['')] = Inl e)"
  using parseHelmChart_chart_yaml_throws [of "\<lambda>c. None" "''name: [''"] by simp

section \<open>Layout\<close>

subsection \<open>Sorting and enumeration\<close>

lemma set_insort_by: "set (insort_by after x xs) = insert x (set xs)"
  by (induction xs) auto

lemma set_js_sort: "set (js_sort after xs) = set xs"
  by (induction xs) (auto simp: js_sort_def set_insort_by)

lemma length_insort_by: "length (insort_by after x xs) = Suc (length xs)"
  by (induction xs) auto

lemma length_js_sort: "length (js_sort after xs) = length xs"
  by (induction xs) (auto simp: js_sort_def length_insort_by)

lemma insort_by_map:
  assumes "\<And>a b. after' (g a) (g b) = after a b"
  shows "insort_by after' (g x) (map g xs) = map g (insort_by after x xs)"
  by (induction xs) (auto simp: assms)

lemma js_sort_map:
  assumes "\<And>a b. after' (g a) (g b) = after a b"
  shows "js_sort after' (map g xs) = map g (js_sort after xs)"
proof (induction xs)
  case Nil
  show ?case by (simp add: js_sort_def)
next
  case (Cons x xs)
  have "js_sort after' (map g (x # xs)) = insort_by after' (g x) (js_sort after' (map g xs))"
    by (simp add: js_sort_def)
  also have "\<dots> = insort_by after' (g x) (map g (js_sort after xs))"
    by (simp add: Cons.IH)
  also have "\<dots> = map g (insort_by after x (js_sort after xs))"
    by (rule insort_by_map) (rule assms)
  finally show ?case by (simp add: js_sort_def)
qed

lemma enumerate_map: "enumerate k (map g xs) = map (apsnd g) (enumerate k xs)"
  by (induction xs arbitrary: k) auto

subsection \<open>The layout reads the identity of a node, never its position\<close>

lemma same_shape_simps:
  assumes "same_shape g"
  shows "gn_id (g n) = gn_id n" "gn_type (g n) = gn_type n" "gn_data (g n) = gn_data n"
  using assms by (auto simp: same_shape_def)

lemma columnIndex_shape: "same_shape g \<Longrightarrow> columnIndex (g n) = columnIndex n"
  by (simp add: columnIndex_def same_shape_simps [of g])

lemma columnNodes_shape: "same_shape g \<Longrightarrow> columnNodes (map g nodes) = map (map g) (columnNodes nodes)"
  by (simp add: columnNodes_def filter_map o_def columnIndex_shape)

lemma sortByConnections_shape:
  "same_shape g \<Longrightarrow> sortByConnections out inc (map g col) = map g (sortByConnections out inc col)"
  unfolding sortByConnections_def by (rule js_sort_map) (simp add: same_shape_simps [of g])

lemma initialPositions_shape:
  assumes "same_shape g"
  shows "initialPositions R (map (map g) cols) = initialPositions R cols"
proof -
  have "(\<lambda>(colIndex, col) pos.
             fold (\<lambda>(rowIndex, node) pos'.
                     pos'(gn_id node \<mapsto> \<lparr> pos_x = js_of_nat R (column_x ! colIndex), pos_y = row_y R rowIndex \<rparr>))
                  (enumerate 0 col) pos) \<circ> apsnd (map g)
      = (\<lambda>(colIndex, col) pos.
             fold (\<lambda>(rowIndex, node) pos'.
                     pos'(gn_id node \<mapsto> \<lparr> pos_x = js_of_nat R (column_x ! colIndex), pos_y = row_y R rowIndex \<rparr>))
                  (enumerate 0 col) pos)"
    by (auto simp: fun_eq_iff enumerate_map fold_map o_def split_def same_shape_simps [OF assms])
  then show ?thesis
    by (simp add: initialPositions_def enumerate_map fold_map)
qed

lemma optimizeColumnOrder_shape:
  assumes "same_shape g"
  shows "optimizeColumnOrder R (map g col) pos inc out = optimizeColumnOrder R col pos inc out"
proof -
  let ?b = "\<lambda>node. (node, barycenter R pos inc out (gn_id node))"
  let ?after = "\<lambda>a b. js_positive R (js_sub R (snd a) (snd b))"
  have bs: "map ?b (map g col) = map (apfst g) (map ?b col)"
    by (simp add: o_def same_shape_simps [OF assms])
  have srt: "js_sort ?after (map (apfst g) (map ?b col)) = map (apfst g) (js_sort ?after (map ?b col))"
    by (rule js_sort_map) simp
  have x: "(case map g col of [] \<Rightarrow> js_of_nat R 0
            | first # rest \<Rightarrow> num_or_zero R (map_option pos_x (pos (gn_id first))))
         = (case col of [] \<Rightarrow> js_of_nat R 0
            | first # rest \<Rightarrow> num_or_zero R (map_option pos_x (pos (gn_id first))))"
    by (cases col) (auto simp: same_shape_simps [OF assms])
  show ?thesis
    unfolding optimizeColumnOrder_def Let_def bs srt x
    by (simp add: enumerate_map fold_map o_def split_def same_shape_simps [OF assms])
qed

lemma refineSweep_shape:
  assumes "same_shape g"
  shows "refineSweep R (map (map g) cols) inc out pos = refineSweep R cols inc out pos"
  unfolding refineSweep_def length_map
proof (rule fold_cong [OF refl refl])
  fix colIndex
  assume "colIndex \<in> set ([1..<length cols] @ rev [0..<length cols - 1])"
  then have "colIndex < length cols" by auto
  then show "(\<lambda>pos'. optimizeColumnOrder R (map (map g) cols ! colIndex) pos' inc out)
           = (\<lambda>pos'. optimizeColumnOrder R (cols ! colIndex) pos' inc out)"
    by (simp add: optimizeColumnOrder_shape [OF assms])
qed

lemma refineSweep_funpow_shape:
  assumes "same_shape g"
  shows "(refineSweep R (map (map g) cols) inc out ^^ k) pos = (refineSweep R cols inc out ^^ k) pos"
  by (induction k) (simp_all add: refineSweep_shape [OF assms])

lemma valuePathOf_shape: "same_shape g \<Longrightarrow> valuePathOf (g n) = valuePathOf n"
  by (simp add: valuePathOf_def same_shape_simps [of g])

lemma push_group_map:
  "push_group k (g v) (map (apsnd (map g)) gs) = map (apsnd (map g)) (push_group k v gs)"
  by (induction gs) auto

lemma fold_push_group_map:
  assumes "\<And>n. key (g n) = key n"
  shows "fold (\<lambda>node gs. push_group (key node) node gs) (map g nodes) (map (apsnd (map g)) gs)
       = map (apsnd (map g)) (fold (\<lambda>node gs. push_group (key node) node gs) nodes gs)"
proof (induction nodes arbitrary: gs)
  case Nil
  show ?case by simp
next
  case (Cons n nodes)
  show ?case
    using Cons.IH [of "push_group (key n) n gs"] by (simp add: assms push_group_map)
qed

lemma groupValueNodesByPrefix_shape:
  assumes "same_shape g"
  shows "groupValueNodesByPrefix R (map g nodes) = map (map g) (groupValueNodesByPrefix R nodes)"
proof -
  let ?key = "\<lambda>node. let first = hd (js_split (CHR ''.'') (valuePathOf node))
                      in if first = [] then ''other'' else first"
  let ?after = "\<lambda>a b. js_localeCompare R (fst a) (fst b) > 0"
  have key: "\<And>n. ?key (g n) = ?key n"
    by (simp add: valuePathOf_shape [OF assms])
  have "fold (\<lambda>node gs. push_group (?key node) node gs) (map g nodes) (map (apsnd (map g)) [])
      = map (apsnd (map g)) (fold (\<lambda>node gs. push_group (?key node) node gs) nodes [])"
    by (rule fold_push_group_map) (rule key)
  moreover have "js_sort ?after (map (apsnd (map g)) gs) = map (apsnd (map g)) (js_sort ?after gs)" for gs
    by (rule js_sort_map) simp
  ultimately show ?thesis
    by (simp add: groupValueNodesByPrefix_def Let_def o_def)
qed

lemma sortGroup_shape: "same_shape g \<Longrightarrow> sortGroup R (map g grp) = map g (sortGroup R grp)"
  unfolding sortGroup_def by (rule js_sort_map) (simp add: valuePathOf_shape)

lemma placeGroup_shape:
  assumes "same_shape g"
  shows "placeGroup R y (map (apsnd g) xs) pos = placeGroup R y xs pos"
proof (induction xs arbitrary: pos)
  case Nil
  show ?case by simp
next
  case (Cons x xs)
  obtain idx node where x: "x = (idx, node)" by (cases x)
  show ?case
    unfolding x
    by (cases "pos (gn_id node)") (simp_all add: same_shape_simps [OF assms] Cons.IH del: fun_upd_apply)
qed

lemma placeGroups_shape:
  assumes "same_shape g"
  shows "placeGroups R y (map (map g) groups) pos = placeGroups R y groups pos"
proof (induction groups arbitrary: y pos)
  case Nil
  show ?case by simp
next
  case (Cons grp groups)
  show ?case
    by (simp add: Let_def sortGroup_shape [OF assms] enumerate_map placeGroup_shape [OF assms]
                  Cons.IH split: sum.splits)
qed

lemma columnSpan_shape: "same_shape g \<Longrightarrow> columnSpan R (map g col) pos = columnSpan R col pos"
  by (simp add: columnSpan_def fold_map o_def same_shape_simps [of g])

lemma centerColumnsVertically_shape:
  assumes "same_shape g"
  shows "centerColumnsVertically R (map (map g) cols) pos = centerColumnsVertically R cols pos"
  by (simp add: centerColumnsVertically_def fold_map o_def columnSpan_shape [OF assms]
                same_shape_simps [OF assms]
           cong: if_cong option.case_cong)

lemma length_columnNodes: "length (columnNodes nodes) = 4"
  by (simp add: columnNodes_def)

lemma layoutPositions_shape:
  assumes "same_shape g"
  shows "layoutPositions R (map g nodes) edges = layoutPositions R nodes edges"
proof -
  let ?cols = "map (sortByConnections (outgoingEdges edges) (incomingEdges edges)) (columnNodes nodes)"
  have cols: "map (sortByConnections (outgoingEdges edges) (incomingEdges edges)) (columnNodes (map g nodes))
            = map (map g) ?cols"
    by (simp add: columnNodes_shape [OF assms] sortByConnections_shape [OF assms] o_def)
  have nth: "map (map g) ?cols ! 2 = map g (?cols ! 2)"
    by (simp add: length_columnNodes del: map_map)
  show ?thesis
    unfolding layoutPositions_def Let_def cols nth
    by (simp add: initialPositions_shape [OF assms] refineSweep_funpow_shape [OF assms]
                  groupValueNodesByPrefix_shape [OF assms] placeGroups_shape [OF assms]
                  centerColumnsVertically_shape [OF assms] del: map_map cong: sum.case_cong)
qed


subsection \<open>The layout always returns\<close>

lemma applyPosition_shape: "same_shape (applyPosition pos)"
  by (simp add: same_shape_def applyPosition_def)

lemma applyPosition_idem: "applyPosition pos (applyPosition pos n) = applyPosition pos n"
  by (cases "pos (gn_id n)") (simp_all add: applyPosition_def)

lemma fold_update_dom:
  assumes "\<And>x m. dom m \<subseteq> dom (f x m)"
  shows "dom m \<subseteq> dom (fold f xs m)"
proof (induction xs arbitrary: m)
  case Nil
  show ?case by simp
next
  case (Cons x xs)
  have "dom m \<subseteq> dom (f x m)" by (rule assms)
  also have "\<dots> \<subseteq> dom (fold f xs (f x m))" by (rule Cons.IH)
  finally show ?case by simp
qed

lemma fold_insert_dom:
  assumes "\<And>x m. dom (f x m) = insert (key x) (dom m)"
  shows "dom (fold f xs m) = key ` set xs \<union> dom m"
  by (induction xs arbitrary: m) (auto simp: assms)

lemma snd_set_enumerate: "snd ` set (enumerate k xs) = set xs"
  by (metis map_snd_enumerate set_map)

lemma initialPositions_dom:
  assumes "col \<in> set cols" "n \<in> set col"
  shows "gn_id n \<in> dom (initialPositions R cols)"
proof -
  let ?row = "\<lambda>colIndex. (\<lambda>(rowIndex, node) pos'.
                pos'(gn_id node \<mapsto> \<lparr> pos_x = js_of_nat R (column_x ! colIndex), pos_y = row_y R rowIndex \<rparr>))"
  let ?inner = "\<lambda>(colIndex, col) pos. fold (?row colIndex) (enumerate 0 col) pos"
  have row: "dom (?row c x pos) = insert (gn_id (snd x)) (dom pos)"
    for c and x :: "nat \<times> 'a GraphNode" and pos :: "'a positions"
    by (cases x) simp
  have inner: "dom pos \<subseteq> dom (?inner x pos)
               \<and> gn_id ` set (snd x) \<subseteq> dom (?inner x pos)"
    for x :: "nat \<times> 'a GraphNode list" and pos :: "'a positions"
  proof -
    obtain c col where x: "x = (c, col)" by (cases x)
    have "dom (fold (?row c) (enumerate 0 col) pos)
            = (\<lambda>x. gn_id (snd x)) ` set (enumerate 0 col) \<union> dom pos"
      by (rule fold_insert_dom) (rule row)
    also have "(\<lambda>x. gn_id (snd x)) ` set (enumerate 0 col) = gn_id ` set col"
      using snd_set_enumerate [of 0 col] by (simp add: image_image [symmetric])
    finally have F: "dom (fold (?row c) (enumerate 0 col) pos) = gn_id ` set col \<union> dom pos" .
    show ?thesis unfolding x prod.case snd_conv F by blast
  qed
  have outer: "x \<in> set xs \<Longrightarrow> gn_id ` set (snd x) \<subseteq> dom (fold ?inner xs pos)"
    for x :: "nat \<times> 'a GraphNode list" and xs and pos :: "'a positions"
  proof (induction xs arbitrary: pos)
    case Nil
    then show ?case by simp
  next
    case (Cons y ys)
    show ?case
    proof (cases "x \<in> set ys")
      case True
      then show ?thesis using Cons.IH [of "?inner y pos"] by (simp only: fold_Cons o_apply)
    next
      case False
      with Cons.prems have xy: "x = y" by simp
      have "gn_id ` set (snd x) \<subseteq> dom (?inner y pos)" using inner [of pos y] xy by blast
      also have "\<dots> \<subseteq> dom (fold ?inner ys (?inner y pos))"
        by (rule fold_update_dom) (use inner in blast)
      finally show ?thesis by (simp only: fold_Cons o_apply)
    qed
  qed
  from assms(1) obtain i where "i < length cols" "cols ! i = col"
    by (auto simp: in_set_conv_nth)
  then have "(i, col) \<in> set (enumerate 0 cols)"
    by (auto simp: in_set_enumerate_eq)
  from outer [OF this, of Map.empty] assms(2) show ?thesis
    unfolding initialPositions_def by auto
qed

lemma optimizeColumnOrder_dom: "dom pos \<subseteq> dom (optimizeColumnOrder R col pos inc out)"
  unfolding optimizeColumnOrder_def Let_def
  by (rule fold_update_dom) (auto simp: split_def)

lemma refineSweep_dom: "dom pos \<subseteq> dom (refineSweep R cols inc out pos)"
  unfolding refineSweep_def
  by (rule fold_update_dom) (rule optimizeColumnOrder_dom)

lemma refineSweep_funpow_dom: "dom pos \<subseteq> dom ((refineSweep R cols inc out ^^ k) pos)"
proof (induction k)
  case 0
  show ?case by simp
next
  case (Suc k)
  have "dom pos \<subseteq> dom ((refineSweep R cols inc out ^^ k) pos)" by (rule Suc.IH)
  also have "\<dots> \<subseteq> dom (refineSweep R cols inc out ((refineSweep R cols inc out ^^ k) pos))"
    by (rule refineSweep_dom)
  finally show ?case by simp
qed

lemma placeGroup_total:
  assumes "gn_id ` snd ` set xs \<subseteq> dom pos"
  shows "\<exists>pos'. placeGroup R y xs pos = Inr pos' \<and> dom pos \<subseteq> dom pos'"
  using assms
proof (induction xs arbitrary: pos)
  case Nil
  show ?case by simp
next
  case (Cons x xs)
  obtain idx node where x: "x = (idx, node)" by (cases x)
  from Cons.prems obtain p where p: "pos (gn_id node) = Some p" unfolding x by auto
  let ?pos = "pos(gn_id node \<mapsto>
                   \<lparr> pos_x = js_add R (pos_x p)
                       (if (case nd_valuePath (gn_data node) of None \<Rightarrow> 1 | Some vp \<Rightarrow> pathDepth vp) > 1
                        then js_of_nat R 30 else js_of_nat R 0),
                     pos_y = js_add R y (js_mul R (js_of_nat R idx) (groupStep R)) \<rparr>)"
  have "gn_id ` snd ` set xs \<subseteq> dom ?pos" using Cons.prems by auto
  from Cons.IH [OF this] obtain pos' where "placeGroup R y xs ?pos = Inr pos'" "dom ?pos \<subseteq> dom pos'"
    by blast
  then show ?case unfolding x by (auto simp: p Let_def)
qed

lemma placeGroups_total:
  assumes "\<forall>grp\<in>set groups. gn_id ` set grp \<subseteq> dom pos"
  shows "\<exists>pos'. placeGroups R y groups pos = Inr pos'"
  using assms
proof (induction groups arbitrary: y pos)
  case Nil
  show ?case by simp
next
  case (Cons grp groups)
  have "gn_id ` snd ` set (enumerate 0 (sortGroup R grp)) \<subseteq> dom pos"
    using Cons.prems by (simp add: snd_set_enumerate sortGroup_def set_js_sort)
  from placeGroup_total [OF this, of R y] obtain pos'
    where pos': "placeGroup R y (enumerate 0 (sortGroup R grp)) pos = Inr pos'" "dom pos \<subseteq> dom pos'"
    by blast
  have "\<forall>g\<in>set groups. gn_id ` set g \<subseteq> dom pos'"
  proof (intro ballI)
    fix g
    assume "g \<in> set groups"
    then have "gn_id ` set g \<subseteq> dom pos" using Cons.prems by simp
    then show "gn_id ` set g \<subseteq> dom pos'" using pos'(2) by (rule subset_trans)
  qed
  from Cons.IH [OF this] show ?case
    by (simp add: Let_def pos'(1))
qed

lemma push_group_members:
  "(\<Union>e\<in>set (push_group k v gs). set (snd e)) = insert v (\<Union>e\<in>set gs. set (snd e))"
  by (induction k v gs rule: push_group.induct) auto

lemma fold_push_group_members:
  "(\<Union>e\<in>set (fold (\<lambda>node gs. push_group (key node) node gs) nodes gs). set (snd e))
     = set nodes \<union> (\<Union>e\<in>set gs. set (snd e))"
  by (induction nodes arbitrary: gs) (auto simp: push_group_members)

lemma groupValueNodesByPrefix_members:
  assumes "grp \<in> set (groupValueNodesByPrefix R nodes)" "n \<in> set grp"
  shows "n \<in> set nodes"
proof -
  let ?key = "\<lambda>node. let first = hd (js_split (CHR ''.'') (valuePathOf node))
                      in if first = [] then ''other'' else first"
  let ?gs = "fold (\<lambda>node gs. push_group (?key node) node gs) nodes []"
  from assms(1) obtain e where "e \<in> set ?gs" "grp = snd e"
    by (auto simp: groupValueNodesByPrefix_def Let_def set_js_sort)
  with assms(2) have "n \<in> (\<Union>e\<in>set ?gs. set (snd e))" by blast
  then show ?thesis unfolding fold_push_group_members by simp
qed

lemma layoutPositions_total: "\<exists>pos. layoutPositions R nodes edges = Inr pos"
proof -
  let ?inc = "incomingEdges edges" and ?out = "outgoingEdges edges"
  let ?cols = "map (sortByConnections ?out ?inc) (columnNodes nodes)"
  let ?pos1 = "(refineSweep R ?cols ?inc ?out ^^ 5) (initialPositions R ?cols)"
  have "\<forall>grp\<in>set (groupValueNodesByPrefix R (?cols ! 2)). gn_id ` set grp \<subseteq> dom ?pos1"
  proof (intro ballI subsetI)
    fix grp k
    assume grp: "grp \<in> set (groupValueNodesByPrefix R (?cols ! 2))" and "k \<in> gn_id ` set grp"
    then obtain n where n: "n \<in> set grp" "k = gn_id n" by auto
    have "n \<in> set (?cols ! 2)" by (rule groupValueNodesByPrefix_members [OF grp n(1)])
    moreover have "?cols ! 2 \<in> set ?cols"
      by (rule nth_mem) (simp add: length_columnNodes)
    ultimately have "gn_id n \<in> dom (initialPositions R ?cols)"
      by (rule initialPositions_dom [rotated])
    then show "k \<in> dom ?pos1"
      using refineSweep_funpow_dom [where pos = "initialPositions R ?cols" and R = R and cols = ?cols
                                     and inc = ?inc and out = ?out and k = 5] n(2)
      by blast
  qed
  from placeGroups_total [OF this, of R "js_of_nat R 0"]
  show ?thesis
    by (auto simp: layoutPositions_def Let_def)
qed

lemma autoOrganizeLayout_total:
  "\<exists>pos. layoutPositions R nodes edges = Inr pos
         \<and> autoOrganizeLayout R nodes edges = Inr (map (applyPosition pos) nodes)"
  using layoutPositions_total [of R nodes edges] by (auto simp: autoOrganizeLayout_def)

text \<open>
  C7. The layout engine is idempotent: \<open>autoOrganizeLayout\<close> returns, and run again on
  its own output with the same edges it returns that output unchanged. The positions it
  assigns are computed from the identities, types and data of the nodes and from the
  edges alone (\<open>layoutPositions_shape\<close>), by stable sorts; the positions of its input
  are not read.
\<close>

theorem autoOrganizeLayout_idempotent:
  "\<exists>ns. autoOrganizeLayout R nodes edges = Inr ns \<and> autoOrganizeLayout R ns edges = Inr ns"
proof -
  from autoOrganizeLayout_total [of R nodes edges] obtain pos
    where pos: "layoutPositions R nodes edges = Inr pos"
      and res: "autoOrganizeLayout R nodes edges = Inr (map (applyPosition pos) nodes)"
    by blast
  have "layoutPositions R (map (applyPosition pos) nodes) edges = Inr pos"
    by (simp add: layoutPositions_shape [OF applyPosition_shape] pos)
  then have "autoOrganizeLayout R (map (applyPosition pos) nodes) edges
           = Inr (map (applyPosition pos) nodes)"
    by (simp add: autoOrganizeLayout_def applyPosition_idem)
  with res show ?thesis by blast
qed

text \<open>
  C9. The frame of the layout: \<open>autoOrganizeLayout\<close> returns as many nodes as it is given,
  in the same order, and each returned node is the given node with at most its
  \<open>position\<close> replaced (its \<open>id\<close>, \<open>type\<close> and \<open>data\<close> are those of the input). The edges
  are an argument only: the function returns nodes and nothing else.
\<close>

theorem autoOrganizeLayout_frame:
  "\<exists>ns. autoOrganizeLayout R nodes edges = Inr ns
        \<and> list_all2 (\<lambda>n m. m = n\<lparr> gn_position := gn_position m \<rparr>) nodes ns"
proof -
  from autoOrganizeLayout_total [of R nodes edges] obtain pos
    where res: "autoOrganizeLayout R nodes edges = Inr (map (applyPosition pos) nodes)"
    by blast
  have "list_all2 (\<lambda>n m. m = n\<lparr> gn_position := gn_position m \<rparr>) nodes (map (applyPosition pos) nodes)"
    by (simp add: list_all2_map2 applyPosition_def list_all2_same)
  with res show ?thesis by blast
qed

section \<open>The graph of a parsed chart\<close>


lemma extractLineReferences_source:
  "r \<in> set (extractLineReferences line filePath lineNum) \<Longrightarrow> rs_file (ref_source r) = filePath"
  by (auto simp: extractLineReferences_def extractValuesReferences_def extractIncludeReferences_def
        extractChartReferences_def extractReleaseReferences_def extractFilesReferences_def
        extractCapabilitiesReferences_def make_reference_def Let_def)

lemma extractReferences_source:
  "r \<in> set (extractReferences content filePath) \<Longrightarrow> rs_file (ref_source r) = filePath"
  by (auto simp: extractReferences_def dest: extractLineReferences_source)

lemma references_sourced_append:
  assumes "references_sourced files refs"
    and "hf_path f = path" and "hf_type f = FT_template \<or> hf_type f = FT_helper \<or> hf_type f = FT_notes"
  shows "references_sourced (files @ [f]) (refs @ extractReferences content path)"
  using assms unfolding references_sourced_def
  by (auto dest: extractReferences_source)

lemma references_sourced_more_files:
  "references_sourced files refs \<Longrightarrow> references_sourced (files @ [f]) refs"
  unfolding references_sourced_def by auto

lemma parse_file_sourced:
  assumes "references_sourced (ps_helmFiles st) (ps_allReferences st)"
    and "parse_file load rawPath content st = Inr st'"
  shows "references_sourced (ps_helmFiles st') (ps_allReferences st')"
proof (cases "isRelevantFile (normalizePath rawPath)")
  case False
  with assms show ?thesis by (simp add: parse_file_def Let_def)
next
  case True
  show ?thesis
  proof (cases "determineFileType (normalizePath rawPath)")
    case FT_chart
    with True assms show ?thesis
      by (auto simp: parse_file_def Let_def references_sourced_more_files split: sum.splits)
  next
    case FT_values
    with True assms show ?thesis
      by (auto simp: parse_file_def Let_def references_sourced_more_files)
  next
    case FT_template
    with True assms show ?thesis
      by (auto simp: parse_file_def Let_def intro!: references_sourced_append)
  next
    case FT_helper
    with True assms show ?thesis
      by (auto simp: parse_file_def Let_def intro!: references_sourced_append)
  next
    case FT_notes
    with True assms show ?thesis
      by (auto simp: parse_file_def Let_def intro!: references_sourced_append)
  next
    case FT_other
    with True assms show ?thesis
      by (auto simp: parse_file_def Let_def references_sourced_more_files)
  qed
qed

lemma parse_files_sourced:
  assumes "references_sourced (ps_helmFiles st) (ps_allReferences st)"
    and "parse_files load files st = Inr st'"
  shows "references_sourced (ps_helmFiles st') (ps_allReferences st')"
  using assms
proof (induction files arbitrary: st)
  case Nil
  then show ?case by simp
next
  case (Cons entry files)
  obtain rawPath content where entry: "entry = (rawPath, content)" by (cases entry)
  from Cons.prems(2) obtain st1 where st1: "parse_file load rawPath content st = Inr st1"
    and rest: "parse_files load files st1 = Inr st'"
    unfolding entry by (auto split: sum.splits)
  from parse_file_sourced [OF Cons.prems(1) st1] rest show ?case by (rule Cons.IH)
qed

lemma parseHelmChart_sourced:
  assumes "parseHelmChart load files = Inr chart"
  shows "references_sourced (hc_files chart) (hc_references chart)"
proof -
  let ?st0 = "\<lparr> ps_helmFiles = [], ps_chartYaml = None,
               ps_values = \<lparr> vd_raw = JObj [], vd_flatKeys = [] \<rparr>,
               ps_allReferences = [], ps_allHelpers = [] \<rparr>"
  from assms obtain st where st: "parse_files load files ?st0 = Inr st"
    and files: "hc_files chart = ps_helmFiles st" and refs: "hc_references chart = ps_allReferences st"
    by (auto simp: parseHelmChart_def Let_def split: sum.splits)
  have "references_sourced (ps_helmFiles ?st0) (ps_allReferences ?st0)"
    by (simp add: references_sourced_def)
  from parse_files_sourced [OF this st] show ?thesis by (simp add: files refs)
qed

lemma createEdge_source:
  "createEdge ref chart = Some e \<Longrightarrow> ge_source e = ''file:'' @ rs_file (ref_source ref)"
  by (auto simp: createEdge_def Let_def split: option.splits if_splits)

lemma graphEdges_source:
  assumes "e \<in> set (graphEdges chart)"
  shows "\<exists>r\<in>set (hc_references chart). ge_source e = ''file:'' @ rs_file (ref_source r)"
proof -
  from assms obtain r where "r \<in> set (hc_references chart)" "createEdge r chart = Some e"
    by (auto simp: graphEdges_def List.map_filter_def)
  then show ?thesis using createEdge_source by blast
qed

lemma graphNodes_file:
  assumes "f \<in> set (hc_files chart)"
    and "hf_type f = FT_template \<or> hf_type f = FT_helper \<or> hf_type f = FT_notes"
  shows "\<exists>n\<in>set (graphNodes R chart). gn_id n = ''file:'' @ hf_path f \<and> gn_type n = NT_file"
proof -
  let ?n = "createFileNode (hf_path f) (hf_name f) (hf_type f) (js_of_nat R 0) (js_of_nat R 0)"
  have "?n \<in> set (graphNodes R chart)"
    using assms by (auto simp: graphNodes_def Let_def)
  moreover have "gn_id ?n = ''file:'' @ hf_path f \<and> gn_type ?n = NT_file"
    by (simp add: createFileNode_def)
  ultimately show ?thesis by blast
qed

lemma buildGraphData_total:
  "\<exists>pos. buildGraphData R chart
          = Inr \<lparr> gd_nodes = map (applyPosition pos) (graphNodes R chart), gd_edges = graphEdges chart \<rparr>"
  using autoOrganizeLayout_total [of R "graphNodes R chart" "graphEdges chart"]
  by (auto simp: buildGraphData_def Let_def)

lemma applyPosition_id [simp]: "gn_id (applyPosition pos n) = gn_id n"
  and applyPosition_type [simp]: "gn_type (applyPosition pos n) = gn_type n"
  by (simp_all add: applyPosition_def)

text \<open>
  C10. For every chart \<open>parseHelmChart\<close> returns, the graph is built and the source of each
  of its edges is the id of one of its file nodes: references are extracted only from
  files classified as template, helper or notes, under the path of that file, and
  \<open>buildGraphData\<close> makes a file node for each such file.
\<close>

theorem edge_sources_are_file_nodes:
  assumes "parseHelmChart load files = Inr chart"
  shows "\<exists>g. buildGraphData R chart = Inr g
            \<and> ge_source ` set (gd_edges g) \<subseteq> gn_id ` {n \<in> set (gd_nodes g). gn_type n = NT_file}"
proof -
  from buildGraphData_total [of R chart] obtain pos
    where g: "buildGraphData R chart
              = Inr \<lparr> gd_nodes = map (applyPosition pos) (graphNodes R chart), gd_edges = graphEdges chart \<rparr>"
    by blast
  have "ge_source e \<in> gn_id ` {n \<in> set (map (applyPosition pos) (graphNodes R chart)). gn_type n = NT_file}"
    if "e \<in> set (graphEdges chart)" for e
  proof -
    from graphEdges_source [OF that] obtain r
      where r: "r \<in> set (hc_references chart)" "ge_source e = ''file:'' @ rs_file (ref_source r)"
      by blast
    from parseHelmChart_sourced [OF assms] r(1) obtain f
      where f: "f \<in> set (hc_files chart)" "hf_path f = rs_file (ref_source r)"
        "hf_type f = FT_template \<or> hf_type f = FT_helper \<or> hf_type f = FT_notes"
      unfolding references_sourced_def by blast
    from graphNodes_file [OF f(1) f(3), of R] obtain n
      where n: "n \<in> set (graphNodes R chart)" "gn_id n = ''file:'' @ hf_path f" "gn_type n = NT_file"
      by blast
    have "applyPosition pos n \<in> {n \<in> set (map (applyPosition pos) (graphNodes R chart)). gn_type n = NT_file}"
      using n by simp
    moreover have "gn_id (applyPosition pos n) = ge_source e"
      using n(2) f(2) r(2) by simp
    ultimately show ?thesis by (metis imageI)
  qed
  with g show ?thesis by auto
qed

lemma scenario_parse: "parseHelmChart scenario_load scenario_files = Inr scenario_chart"
  by code_simp

theorem edge_sources_are_file_nodes_witness:
  "parseHelmChart scenario_load scenario_files = Inr scenario_chart
   \<and> (\<forall>R :: int runtime. \<exists>g. buildGraphData R scenario_chart = Inr g
          \<and> ge_source ` set (gd_edges g) \<subseteq> gn_id ` {n \<in> set (gd_nodes g). gn_type n = NT_file})"
  using scenario_parse edge_sources_are_file_nodes [OF scenario_parse] by blast

lemma dangling_parse: "parseHelmChart (\<lambda>c. None) dangling_files = Inr dangling_chart"
  by code_simp

lemma dangling_nodes: "map gn_id (graphNodes R dangling_chart) = [''file:templates/deploy.yaml'', ''release:info'']"
  by (simp add: graphNodes_def dangling_chart_def getReferencedValuePaths_def unique_in_order_def
        createFileNode_def createReleaseNode_def Let_def)

lemma dangling_edges: "map ge_target (graphEdges dangling_chart) = [''helper:missing'']"
  by (simp add: graphEdges_def dangling_chart_def createEdge_def List.map_filter_simps)

text \<open>
  C3. The claim: both ends of every edge of the graph are ids of nodes of the graph, an
  edge with an unresolvable target being dropped, also an \<open>include\<close> of a helper without
  a definition. \<open>createEdge\<close> drops a \<open>chart\<close> reference when the chart has no
  \<open>Chart.yaml\<close>, but it never looks a helper up: the chart parsed from a single template
  that includes the undefined helper \<open>missing\<close> gets an edge to \<open>helper:missing\<close>, and no
  node has that id.
\<close>

theorem dangling_helper_edge:
  "parseHelmChart (\<lambda>c. None) dangling_files = Inr dangling_chart
   \<and> (\<exists>g. buildGraphData R dangling_chart = Inr g
          \<and> ''helper:missing'' \<in> ge_target ` set (gd_edges g)
          \<and> ''helper:missing'' \<notin> gn_id ` set (gd_nodes g))"
proof -
  from buildGraphData_total [of R dangling_chart] obtain pos
    where g: "buildGraphData R dangling_chart
              = Inr \<lparr> gd_nodes = map (applyPosition pos) (graphNodes R dangling_chart),
                      gd_edges = graphEdges dangling_chart \<rparr>"
    by blast
  have "gn_id ` set (map (applyPosition pos) (graphNodes R dangling_chart))
          = set (map gn_id (graphNodes R dangling_chart))"
    by (simp add: image_image)
  then have nodes: "''helper:missing'' \<notin> gn_id ` set (map (applyPosition pos) (graphNodes R dangling_chart))"
    unfolding dangling_nodes by simp
  have "ge_target ` set (graphEdges dangling_chart) = set (map ge_target (graphEdges dangling_chart))"
    by simp
  then have edges: "''helper:missing'' \<in> ge_target ` set (graphEdges dangling_chart)"
    unfolding dangling_edges by simp
  from g nodes edges dangling_parse show ?thesis by simp
qed

section \<open>Flattening and looking up configuration values\<close>

subsection \<open>Splitting and joining\<close>

lemma js_split_nonempty: "js_split c s \<noteq> []"
  by (induction s) (auto split: list.splits)

lemma js_split_no_sep: "c \<notin> set k \<Longrightarrow> js_split c k = [k]"
  by (induction k) auto

lemma js_split_append: "c \<notin> set k \<Longrightarrow> js_split c (k @ c # rest) = k # js_split c rest"
  by (induction k) (auto split: list.splits)

subsection \<open>The accumulator of the flattening\<close>

lemma flatten_items_acc:
  assumes "\<And>x p r. x \<in> set xs \<Longrightarrow> flattenValues x p r = r @ flattenValues x p []"
  shows "flatten_items xs i p r = r @ flatten_items xs i p []"
  using assms
proof (induction xs arbitrary: i r)
  case Nil
  show ?case by simp
next
  case (Cons x xs)
  let ?p = "if p \<noteq> [] then p @ ''['' @ string_of_nat i @ '']'' else ''['' @ string_of_nat i @ '']''"
  have x: "flattenValues x ?p r = r @ flattenValues x ?p []" by (rule Cons.prems) simp
  have rest: "flatten_items xs (Suc i) p r' = r' @ flatten_items xs (Suc i) p []" for r'
  proof (rule Cons.IH)
    fix y q r
    assume "y \<in> set xs"
    then have "y \<in> set (x # xs)" by simp
    then show "flattenValues y q r = r @ flattenValues y q []" by (rule Cons.prems)
  qed
  have "flatten_items (x # xs) i p r = flatten_items xs (Suc i) p (flattenValues x ?p r)"
    by simp
  also have "\<dots> = flattenValues x ?p r @ flatten_items xs (Suc i) p []"
    by (rule rest)
  also have "\<dots> = r @ (flattenValues x ?p [] @ flatten_items xs (Suc i) p [])"
    by (subst x) simp
  also have "flattenValues x ?p [] @ flatten_items xs (Suc i) p []
               = flatten_items xs (Suc i) p (flattenValues x ?p [])"
    by (rule rest [symmetric])
  also have "\<dots> = flatten_items (x # xs) i p []"
    by simp
  finally show ?case .
qed

lemma flatten_fields_acc:
  assumes "\<And>k v p r. (k, v) \<in> set fs \<Longrightarrow> flattenValues v p r = r @ flattenValues v p []"
  shows "flatten_fields fs p r = r @ flatten_fields fs p []"
  using assms
proof (induction fs arbitrary: r)
  case Nil
  show ?case by simp
next
  case (Cons f fs)
  obtain k v where f: "f = (k, v)" by (cases f)
  let ?p = "if p \<noteq> [] then p @ ''.'' @ k else k"
  have v: "flattenValues v ?p r = r @ flattenValues v ?p []"
    by (rule Cons.prems [of k v]) (simp add: f)
  have rest: "flatten_fields fs p r' = r' @ flatten_fields fs p []" for r'
  proof (rule Cons.IH)
    fix k' v' q r
    assume "(k', v') \<in> set fs"
    then have "(k', v') \<in> set (f # fs)" by simp
    then show "flattenValues v' q r = r @ flattenValues v' q []" by (rule Cons.prems)
  qed
  have "flatten_fields (f # fs) p r = flatten_fields fs p (flattenValues v ?p r)"
    by (simp add: f)
  also have "\<dots> = flattenValues v ?p r @ flatten_fields fs p []"
    by (rule rest)
  also have "\<dots> = r @ (flattenValues v ?p [] @ flatten_fields fs p [])"
    by (subst v) simp
  also have "flattenValues v ?p [] @ flatten_fields fs p []
               = flatten_fields fs p (flattenValues v ?p [])"
    by (rule rest [symmetric])
  also have "\<dots> = flatten_fields (f # fs) p []"
    by (simp add: f)
  finally show ?case .
qed

lemma flattenValues_acc: "flattenValues v p r = r @ flattenValues v p []"
proof (induction v arbitrary: p r)
  case (JArr xs)
  have items: "flatten_items xs 0 p r' = r' @ flatten_items xs 0 p []" for r'
    by (rule flatten_items_acc) (rule JArr)
  have "flattenValues (JArr xs) p r = (r @ [make_key p (JArr xs) VT_array]) @ flatten_items xs 0 p []"
    by (simp only: flattenValues.simps) (rule items)
  also have "\<dots> = r @ ([make_key p (JArr xs) VT_array] @ flatten_items xs 0 p [])"
    by simp
  also have "[make_key p (JArr xs) VT_array] @ flatten_items xs 0 p [] = flattenValues (JArr xs) p []"
    by (simp only: flattenValues.simps append_Nil) (rule items [symmetric])
  finally show ?case .
next
  case (JObj fs)
  have fields: "flatten_fields fs p r' = r' @ flatten_fields fs p []" for r'
  proof (rule flatten_fields_acc)
    fix k v q r
    assume kv: "(k, v) \<in> set fs"
    show "flattenValues v q r = r @ flattenValues v q []"
      by (rule JObj [OF kv]) simp
  qed
  show ?case
  proof (cases "p = []")
    case True
    with fields [of r] show ?thesis by simp
  next
    case False
    have "flattenValues (JObj fs) p r = (r @ [make_key p (JObj fs) VT_object]) @ flatten_fields fs p []"
      using False by (simp only: flattenValues.simps if_True simp_thms) (rule fields)
    also have "\<dots> = r @ ([make_key p (JObj fs) VT_object] @ flatten_fields fs p [])"
      by simp
    also have "[make_key p (JObj fs) VT_object] @ flatten_fields fs p [] = flattenValues (JObj fs) p []"
      using False by (simp only: flattenValues.simps if_True simp_thms append_Nil) (rule fields [symmetric])
    finally show ?thesis .
  qed
qed simp_all


lemma flatten_items_split: "flatten_items xs i p r = r @ flatten_items xs i p []"
  by (rule flatten_items_acc) (rule flattenValues_acc)

lemma flatten_fields_split: "flatten_fields fs p r = r @ flatten_fields fs p []"
  by (rule flatten_fields_acc) (rule flattenValues_acc)

subsection \<open>The entries and their routes\<close>

lemma flatten_routes_entries:
  "map snd (flatten_routes v route pfx) = flattenValues v pfx []"
  "map snd (flatten_routes_items xs i route pfx) = flatten_items xs i pfx []"
  "map snd (flatten_routes_fields fs route pfx) = flatten_fields fs pfx []"
proof (induction v route pfx and xs i route pfx and fs route pfx
       rule: flatten_routes_flatten_routes_items_flatten_routes_fields.induct)
  case (6 xs route pfx)
  then show ?case
    using flatten_items_split [of xs 0 pfx "[make_key pfx (JArr xs) VT_array]"] by simp
next
  case (7 fs route pfx)
  then show ?case
    using flatten_fields_split [of fs pfx "[make_key pfx (JObj fs) VT_object]"] by simp
next
  case (9 item items index route pfx)
  let ?p = "if pfx \<noteq> [] then pfx @ ''['' @ string_of_nat index @ '']''
            else ''['' @ string_of_nat index @ '']''"
  have "flatten_items (item # items) index pfx []
          = flattenValues item ?p [] @ flatten_items items (Suc index) pfx []"
    using flatten_items_split [of items "Suc index" pfx "flattenValues item ?p []"] by simp
  with 9 show ?case by simp
next
  case (11 key v fs route pfx)
  let ?p = "if pfx \<noteq> [] then pfx @ ''.'' @ key else key"
  have "flatten_fields ((key, v) # fs) pfx []
          = flattenValues v ?p [] @ flatten_fields fs pfx []"
    using flatten_fields_split [of fs pfx "flattenValues v ?p []"] by simp
  with 11 show ?case by simp
qed simp_all


lemma map_of_later:
  assumes "k \<notin> fst ` set fs" "map_of fs k' = Some x"
  shows "map_of ((k, v) # fs) k' = Some x"
proof -
  from assms(2) have "k' \<in> fst ` set fs" by (auto dest: map_of_SomeD intro: rev_image_eqI)
  with assms(1) have "k' \<noteq> k" by auto
  with assms(2) show ?thesis by simp
qed

lemma route_path_append: "route_path p (steps @ steps') = route_path (route_path p steps) steps'"
  by (induction p steps rule: route_path.induct) simp_all

lemma flatten_routes_route:
  "(rt, e) \<in> set (flatten_routes v route pfx) \<Longrightarrow> distinct_keys v \<Longrightarrow>
     \<exists>steps. rt = route @ steps \<and> value_at v steps = Some (vk_value e)
            \<and> vk_path e = route_path pfx steps"
  "(rt, e) \<in> set (flatten_routes_items xs i route pfx) \<Longrightarrow> distinct_keys_items xs \<Longrightarrow>
     \<exists>j steps. j < length xs \<and> rt = route @ Index (i + j) # steps
              \<and> value_at (xs ! j) steps = Some (vk_value e)
              \<and> vk_path e = route_path pfx (Index (i + j) # steps)"
  "(rt, e) \<in> set (flatten_routes_fields fs route pfx) \<Longrightarrow> distinct (map fst fs) \<Longrightarrow>
     distinct_keys_fields fs \<Longrightarrow>
     \<exists>k x steps. map_of fs k = Some x \<and> rt = route @ Key k # steps
              \<and> value_at x steps = Some (vk_value e)
              \<and> vk_path e = route_path pfx (Key k # steps)"
proof (induction v route pfx and xs i route pfx and fs route pfx
       rule: flatten_routes_flatten_routes_items_flatten_routes_fields.induct)
  case (3 b route pfx)
  then have "rt = route @ [] \<and> value_at (JBool b) [] = Some (vk_value e) \<and> vk_path e = route_path pfx []"
    by (simp add: make_key_def)
  then show ?case by blast
next
  case (4 n route pfx)
  then have "rt = route @ [] \<and> value_at (JNum n) [] = Some (vk_value e) \<and> vk_path e = route_path pfx []"
    by (simp add: make_key_def)
  then show ?case by blast
next
  case (5 t route pfx)
  then have "rt = route @ [] \<and> value_at (JStr t) [] = Some (vk_value e) \<and> vk_path e = route_path pfx []"
    by (simp add: make_key_def)
  then show ?case by blast
next
  case (6 xs route pfx)
  from "6.prems"(1)
  consider "(rt, e) = (route, make_key pfx (JArr xs) VT_array)"
    | "(rt, e) \<in> set (flatten_routes_items xs 0 route pfx)"
    by auto
  then show ?case
  proof cases
    case 1
    then have "rt = route @ [] \<and> value_at (JArr xs) [] = Some (vk_value e) \<and> vk_path e = route_path pfx []"
      by (simp add: make_key_def)
    then show ?thesis by blast
  next
    case 2
    from "6.prems"(2) have "distinct_keys_items xs" by simp
    from "6.IH" [OF 2 this] obtain j steps
      where j: "j < length xs" and rt: "rt = route @ Index j # steps"
        and v: "value_at (xs ! j) steps = Some (vk_value e)"
        and p: "vk_path e = route_path pfx (Index j # steps)"
      by auto
    from j v have "value_at (JArr xs) (Index j # steps) = Some (vk_value e)" by simp
    with rt p show ?thesis by blast
  qed
next
  case (7 fs route pfx)
  from "7.prems"(1)
  consider "(rt, e) = (route, make_key pfx (JObj fs) VT_object)"
    | "(rt, e) \<in> set (flatten_routes_fields fs route pfx)"
    by (auto split: if_splits)
  then show ?case
  proof cases
    case 1
    then have "rt = route @ [] \<and> value_at (JObj fs) [] = Some (vk_value e) \<and> vk_path e = route_path pfx []"
      by (simp add: make_key_def)
    then show ?thesis by blast
  next
    case 2
    from "7.prems"(2) have "distinct (map fst fs)" "distinct_keys_fields fs" by simp_all
    from "7.IH" [OF 2 this] obtain k x steps
      where k: "map_of fs k = Some x" and rt: "rt = route @ Key k # steps"
        and v: "value_at x steps = Some (vk_value e)"
        and p: "vk_path e = route_path pfx (Key k # steps)"
      by blast
    from k v have "value_at (JObj fs) (Key k # steps) = Some (vk_value e)" by simp
    with rt p show ?thesis by blast
  qed
next
  case (9 item items index route pfx)
  let ?p = "if pfx \<noteq> [] then pfx @ ''['' @ string_of_nat index @ '']''
            else ''['' @ string_of_nat index @ '']''"
  from "9.prems"(2) have item: "distinct_keys item" and items: "distinct_keys_items items" by simp_all
  from "9.prems"(1)
  consider "(rt, e) \<in> set (flatten_routes item (route @ [Index index]) ?p)"
    | "(rt, e) \<in> set (flatten_routes_items items (Suc index) route pfx)"
    by auto
  then show ?case
  proof cases
    case 1
    from "9.IH"(1) [OF 1 item] obtain steps
      where rt: "rt = (route @ [Index index]) @ steps"
        and v: "value_at item steps = Some (vk_value e)"
        and p: "vk_path e = route_path ?p steps"
      by blast
    have "0 < length (item # items) \<and> rt = route @ Index (index + 0) # steps
            \<and> value_at ((item # items) ! 0) steps = Some (vk_value e)
            \<and> vk_path e = route_path pfx (Index (index + 0) # steps)"
      using rt v p by simp
    then show ?thesis by blast
  next
    case 2
    from "9.IH"(2) [OF 2 items] obtain j steps
      where j: "j < length items" and rt: "rt = route @ Index (Suc index + j) # steps"
        and v: "value_at (items ! j) steps = Some (vk_value e)"
        and p: "vk_path e = route_path pfx (Index (Suc index + j) # steps)"
      by blast
    have "Suc j < length (item # items) \<and> rt = route @ Index (index + Suc j) # steps
            \<and> value_at ((item # items) ! Suc j) steps = Some (vk_value e)
            \<and> vk_path e = route_path pfx (Index (index + Suc j) # steps)"
      using j rt v p by simp
    then show ?thesis by blast
  qed
next
  case (11 key v fs route pfx)
  let ?p = "if pfx \<noteq> [] then pfx @ ''.'' @ key else key"
  from "11.prems"(2) have fresh: "key \<notin> fst ` set fs" and dist: "distinct (map fst fs)" by simp_all
  from "11.prems"(3) have v: "distinct_keys v" and fs: "distinct_keys_fields fs" by simp_all
  from "11.prems"(1)
  consider "(rt, e) \<in> set (flatten_routes v (route @ [Key key]) ?p)"
    | "(rt, e) \<in> set (flatten_routes_fields fs route pfx)"
    by auto
  then show ?case
  proof cases
    case 1
    from "11.IH"(1) [OF 1 v] obtain steps
      where rt: "rt = (route @ [Key key]) @ steps"
        and val: "value_at v steps = Some (vk_value e)"
        and p: "vk_path e = route_path ?p steps"
      by blast
    have "map_of ((key, v) # fs) key = Some v \<and> rt = route @ Key key # steps
            \<and> value_at v steps = Some (vk_value e)
            \<and> vk_path e = route_path pfx (Key key # steps)"
      using rt val p by simp
    then show ?thesis by blast
  next
    case 2
    from "11.IH"(2) [OF 2 dist fs] obtain k x steps
      where k: "map_of fs k = Some x" and rt: "rt = route @ Key k # steps"
        and val: "value_at x steps = Some (vk_value e)"
        and p: "vk_path e = route_path pfx (Key k # steps)"
      by blast
    from map_of_later [OF fresh k] have "map_of ((key, v) # fs) k = Some x" .
    with rt val p show ?thesis by blast
  qed
qed simp_all

subsection \<open>Looking a flattened path up\<close>

lemma walk_parts_keys:
  "value_at v (map Key ks) = Some x \<Longrightarrow> walk_parts v ks = x"
proof (induction ks arbitrary: v)
  case Nil
  then show ?case by simp
next
  case (Cons k ks)
  from Cons.prems obtain fs y where v: "v = JObj fs" and k: "map_of fs k = Some y"
    and rest: "value_at y (map Key ks) = Some x"
    by (auto split: jsvalue.splits option.splits)
  from Cons.IH [OF rest] show ?case by (simp add: v k js_get_def)
qed

lemma route_path_keys:
  "p \<noteq> [] \<Longrightarrow> route_path p (map Key ks) = p @ concat (map (\<lambda>k. CHR ''.'' # k) ks)"
  by (induction ks arbitrary: p) simp_all

lemma js_split_dotted:
  assumes "CHR ''.'' \<notin> set k" "\<forall>q\<in>set ks. CHR ''.'' \<notin> set q"
  shows "js_split (CHR ''.'') (k @ concat (map (\<lambda>k. CHR ''.'' # k) ks)) = k # ks"
  using assms
proof (induction ks arbitrary: k)
  case Nil
  then show ?case by (simp add: js_split_no_sep)
next
  case (Cons q ks)
  from Cons.prems have q: "CHR ''.'' \<notin> set q" and ks: "\<forall>q\<in>set ks. CHR ''.'' \<notin> set q" by simp_all
  have "js_split (CHR ''.'') (k @ CHR ''.'' # (q @ concat (map (\<lambda>k. CHR ''.'' # k) ks)))
          = k # js_split (CHR ''.'') (q @ concat (map (\<lambda>k. CHR ''.'' # k) ks))"
    by (rule js_split_append) (use Cons.prems in simp)
  with Cons.IH [OF q ks] show ?case by simp
qed

lemma plain_route_keys:
  assumes "plain_route route"
  obtains k ks where "route = map Key (k # ks)" "CHR ''.'' \<notin> set k"
    "\<forall>q\<in>set ks. CHR ''.'' \<notin> set q" "ks = [] \<or> k \<noteq> []"
proof -
  from assms have all: "list_all (\<lambda>s. case s of Key k \<Rightarrow> CHR ''.'' \<notin> set k | Index i \<Rightarrow> False) route"
    and ne: "route \<noteq> []" and hd: "length route = 1 \<or> hd route \<noteq> Key []"
    by (simp_all add: plain_route_def)
  from all have "\<exists>ks. route = map Key ks \<and> (\<forall>q\<in>set ks. CHR ''.'' \<notin> set q)"
  proof (induction route)
    case Nil
    then show ?case by simp
  next
    case (Cons s route)
    then obtain ks where ks: "route = map Key ks" "\<forall>q\<in>set ks. CHR ''.'' \<notin> set q" by auto
    from Cons.prems obtain k where k: "s = Key k" "CHR ''.'' \<notin> set k" by (cases s) auto
    from ks k have "s # route = map Key (k # ks) \<and> (\<forall>q\<in>set (k # ks). CHR ''.'' \<notin> set q)" by simp
    then show ?case by (rule exI [of _ "k # ks"])
  qed
  then obtain ks0 where ks0: "route = map Key ks0" "\<forall>q\<in>set ks0. CHR ''.'' \<notin> set q" by blast
  with ne obtain k ks where c: "ks0 = k # ks" by (cases ks0) auto
  from hd ks0(1) c have "ks = [] \<or> k \<noteq> []" by auto
  with ks0 c that show thesis by auto
qed

lemma js_split_route_path:
  assumes "CHR ''.'' \<notin> set k" "\<forall>q\<in>set ks. CHR ''.'' \<notin> set q" "ks = [] \<or> k \<noteq> []"
  shows "js_split (CHR ''.'') (route_path [] (map Key (k # ks))) = k # ks"
proof (cases "ks = []")
  case True
  with assms(1) show ?thesis by (simp add: js_split_no_sep)
next
  case False
  with assms(3) have "k \<noteq> []" by simp
  then have "route_path [] (map Key (k # ks)) = k @ concat (map (\<lambda>k. CHR ''.'' # k) ks)"
    by (simp add: route_path_keys)
  with js_split_dotted [OF assms(1,2)] show ?thesis by simp
qed

text \<open>
  C5, as the code has it. The claim says that every entry of the flattened key list is
  found again by \<open>getValueByPath\<close>, also the entries with a bracket path. The accessor
  splits its path at dots and knows no bracket notation: for \<open>{a: [1]}\<close> the entry
  \<open>a[0]\<close> with value \<open>1\<close> is looked up as the property named \<open>a[0]\<close> and gives
  \<open>undefined\<close> (\<open>flatten_lookup_roundtrip_counterexample\<close> below). What holds, for every
  configuration tree: the flattened key list is the list of the entries of
  \<open>flatten_routes\<close>; each entry records the value at its route and has the path built
  along its route; and every entry whose route is plain (one or more object keys from the
  root, none with a dot, the first one not empty unless it is the only one) is returned
  unchanged by the lookup of its path. The keys of the rest of the tree, and the entries
  reached through an array index, are not constrained and not covered.
\<close>


theorem flattened_entry_lookup:
  assumes "distinct_keys raw"
  shows "map snd (flatten_routes raw [] []) = flattenValues raw [] []
       \<and> (\<forall>(route, e)\<in>set (flatten_routes raw [] []).
             value_at raw route = Some (vk_value e)
             \<and> vk_path e = route_path [] route
             \<and> (plain_route route \<longrightarrow> getValueByPath raw (vk_path e) = vk_value e))"
proof (intro conjI ballI)
  show "map snd (flatten_routes raw [] []) = flattenValues raw [] []"
    by (rule flatten_routes_entries)
next
  fix entry
  assume mem: "entry \<in> set (flatten_routes raw [] [])"
  obtain route e where entry: "entry = (route, e)" by (cases entry)
  from flatten_routes_route(1) [OF mem [unfolded entry] assms]
  have v: "value_at raw route = Some (vk_value e)" and p: "vk_path e = route_path [] route"
    by auto
  have "getValueByPath raw (vk_path e) = vk_value e" if "plain_route route"
  proof -
    from that obtain k ks where r: "route = map Key (k # ks)" and k: "CHR ''.'' \<notin> set k"
      and ks: "\<forall>q\<in>set ks. CHR ''.'' \<notin> set q" and lead: "ks = [] \<or> k \<noteq> []"
      by (rule plain_route_keys)
    have "js_split (CHR ''.'') (vk_path e) = k # ks"
      unfolding p r by (rule js_split_route_path [OF k ks lead])
    then have "getValueByPath raw (vk_path e) = walk_parts raw (k # ks)"
      by (simp add: getValueByPath_def)
    also have "\<dots> = vk_value e"
      by (rule walk_parts_keys) (use v r in simp)
    finally show ?thesis .
  qed
  with v p show "case entry of (route, e) \<Rightarrow>
             value_at raw route = Some (vk_value e)
             \<and> vk_path e = route_path [] route
             \<and> (plain_route route \<longrightarrow> getValueByPath raw (vk_path e) = vk_value e)"
    by (simp add: entry)
qed

theorem flatten_lookup_roundtrip_counterexample:
  "flattenValues (JObj [(''a'', JArr [JNum 1])]) [] []
     = [make_key ''a'' (JArr [JNum 1]) VT_array, make_key ''a[0]'' (JNum 1) VT_number]
   \<and> vk_value (make_key ''a[0]'' (JNum 1) VT_number) = JNum 1
   \<and> getValueByPath (JObj [(''a'', JArr [JNum 1])]) (vk_path (make_key ''a[0]'' (JNum 1) VT_number))
     = JUndefined"
  by code_simp

theorem flattened_entry_lookup_witness:
  "distinct_keys (JObj [(''image'', JObj [(''tag'', JStr ''v1'')]), (''ports'', JArr [JNum 80]),
                        (''ports[0]'', JStr ''lit''), (''app.io/name'', JStr ''web'')])
   \<and> flatten_routes (JObj [(''image'', JObj [(''tag'', JStr ''v1'')]), (''ports'', JArr [JNum 80]),
                           (''ports[0]'', JStr ''lit''), (''app.io/name'', JStr ''web'')]) [] []
       = [([Key ''image''], make_key ''image'' (JObj [(''tag'', JStr ''v1'')]) VT_object),
          ([Key ''image'', Key ''tag''], make_key ''image.tag'' (JStr ''v1'') VT_string),
          ([Key ''ports''], make_key ''ports'' (JArr [JNum 80]) VT_array),
          ([Key ''ports'', Index 0], make_key ''ports[0]'' (JNum 80) VT_number),
          ([Key ''ports[0]''], make_key ''ports[0]'' (JStr ''lit'') VT_string),
          ([Key ''app.io/name''], make_key ''app.io/name'' (JStr ''web'') VT_string)]
   \<and> plain_route [Key ''image'', Key ''tag'']
   \<and> getValueByPath (JObj [(''image'', JObj [(''tag'', JStr ''v1'')]), (''ports'', JArr [JNum 80]),
                           (''ports[0]'', JStr ''lit''), (''app.io/name'', JStr ''web'')]) ''image.tag''
       = JStr ''v1''
   \<and> plain_route [Key ''ports[0]'']
   \<and> getValueByPath (JObj [(''image'', JObj [(''tag'', JStr ''v1'')]), (''ports'', JArr [JNum 80]),
                           (''ports[0]'', JStr ''lit''), (''app.io/name'', JStr ''web'')]) ''ports[0]''
       = JStr ''lit''"
proof -
  let ?raw = "JObj [(''image'', JObj [(''tag'', JStr ''v1'')]), (''ports'', JArr [JNum 80]),
                    (''ports[0]'', JStr ''lit''), (''app.io/name'', JStr ''web'')]"
  have keys: "distinct_keys ?raw" by simp
  have routes: "flatten_routes ?raw [] []
       = [([Key ''image''], make_key ''image'' (JObj [(''tag'', JStr ''v1'')]) VT_object),
          ([Key ''image'', Key ''tag''], make_key ''image.tag'' (JStr ''v1'') VT_string),
          ([Key ''ports''], make_key ''ports'' (JArr [JNum 80]) VT_array),
          ([Key ''ports'', Index 0], make_key ''ports[0]'' (JNum 80) VT_number),
          ([Key ''ports[0]''], make_key ''ports[0]'' (JStr ''lit'') VT_string),
          ([Key ''app.io/name''], make_key ''app.io/name'' (JStr ''web'') VT_string)]"
    by code_simp
  have p1: "plain_route [Key ''image'', Key ''tag'']" and p2: "plain_route [Key ''ports[0]'']"
    by (simp_all add: plain_route_def)
  from flattened_entry_lookup [OF keys]
  have "\<forall>(route, e)\<in>set (flatten_routes ?raw [] []).
          plain_route route \<longrightarrow> getValueByPath ?raw (vk_path e) = vk_value e"
    by fast
  then have "getValueByPath ?raw (vk_path (make_key ''image.tag'' (JStr ''v1'') VT_string))
               = vk_value (make_key ''image.tag'' (JStr ''v1'') VT_string)"
    and "getValueByPath ?raw (vk_path (make_key ''ports[0]'' (JStr ''lit'') VT_string))
               = vk_value (make_key ''ports[0]'' (JStr ''lit'') VT_string)"
    unfolding routes using p1 p2 by simp_all
  then have "getValueByPath ?raw ''image.tag'' = JStr ''v1''"
    and "getValueByPath ?raw ''ports[0]'' = JStr ''lit''"
    by (simp_all add: make_key_def)
  with keys routes p1 p2 show ?thesis by (simp only: simp_thms)
qed

text \<open>
  Outside the plain routes the lookup can miss: a key with a dot is split, an empty first
  key is dropped from the path, and the path of the root itself is the empty string.
\<close>

lemma lookup_outside_plain_routes:
  "flatten_routes (JObj [(''a.b'', JNum 1)]) [] [] = [([Key ''a.b''], make_key ''a.b'' (JNum 1) VT_number)]
   \<and> getValueByPath (JObj [(''a.b'', JNum 1)]) ''a.b'' = JUndefined
   \<and> flatten_routes (JObj [([], JObj [(''a'', JNum 1)])]) [] []
       = [([Key [], Key ''a''], make_key ''a'' (JNum 1) VT_number)]
   \<and> getValueByPath (JObj [([], JObj [(''a'', JNum 1)])]) ''a'' = JUndefined
   \<and> flatten_routes (JNum 5) [] [] = [([], make_key [] (JNum 5) VT_number)]
   \<and> getValueByPath (JNum 5) [] = JUndefined"
  by code_simp

section \<open>The values references of a text\<close>

subsection \<open>One segment, one chain\<close>

lemma not_ident_dot_bracket: "\<not> is_ident_char (CHR ''.'')" "\<not> is_ident_char (CHR ''['')"
  by (simp_all add: is_ident_char_def is_alpha_def is_digit_def)

lemma takeWhile_stop:
  assumes "nxt = [] \<or> \<not> P (hd nxt)" "\<forall>x\<in>set xs. P x"
  shows "takeWhile P (xs @ nxt) = xs"
proof -
  from assms(1) have "takeWhile P nxt = []" by (cases nxt) auto
  with assms(2) show ?thesis by (simp add: takeWhile_append2)
qed

lemma takeWhile_shorter: "length (takeWhile P xs) < length xs \<longleftrightarrow> (\<exists>x\<in>set xs. \<not> P x)"
  by (induction xs) auto

lemma takeWhile_nonempty: "takeWhile P xs \<noteq> [] \<longleftrightarrow> xs \<noteq> [] \<and> P (hd xs)"
  by (cases xs) auto

lemma match_segment_starts: "match_values_segment t \<noteq> None \<longleftrightarrow> starts_segment t"
proof (cases t)
  case Nil
  then show ?thesis by (simp add: match_values_segment_def starts_segment_def)
next
  case (Cons c rest)
  show ?thesis
  proof (cases "c = CHR ''.''")
    case True
    then show ?thesis
      by (cases rest) (simp_all add: Cons match_values_segment_def starts_segment_def)
  next
    case False
    then show ?thesis
      by (auto simp: Cons match_values_segment_def starts_segment_def Let_def
            takeWhile_shorter takeWhile_nonempty)
  qed
qed

lemma match_segment_rendered:
  assumes "wf_segment sg"
    and "case sg of Ident s \<Rightarrow> nxt = [] \<or> \<not> is_ident_char (hd nxt) | Bracket s \<Rightarrow> True"
  shows "match_values_segment (render_segment sg @ nxt) = Some (length (render_segment sg))"
proof (cases sg)
  case (Ident s)
  with assms(1) obtain d s' where s: "s = d # s'" and d: "is_ident_start d"
    and s': "\<forall>x\<in>set s'. is_ident_char x"
    by (cases s) (auto simp: wf_segment_def list_all_iff)
  from assms(2) Ident have "nxt = [] \<or> \<not> is_ident_char (hd nxt)" by simp
  from takeWhile_stop [OF this s'] have "takeWhile is_ident_char (s' @ nxt) = s'" .
  with d show ?thesis by (simp add: Ident s match_values_segment_def)
next
  case (Bracket b)
  with assms(1) have b: "b \<noteq> []" "\<forall>x\<in>set b. x \<noteq> CHR '']''"
    by (auto simp: wf_segment_def)
  have "takeWhile (\<lambda>x. x \<noteq> CHR '']'') (b @ CHR '']'' # nxt) = b"
    by (rule takeWhile_stop) (use b in simp_all)
  with b(1) show ?thesis by (simp add: Bracket match_values_segment_def)
qed

lemma render_segment_nonempty: "render_segment sg \<noteq> []"
  by (cases sg) simp_all

lemma render_chain_Cons: "render_chain (sg # segs) = render_segment sg @ render_chain segs"
  by (simp add: render_chain_def)

lemma render_chain_nonempty: "segs \<noteq> [] \<Longrightarrow> render_chain segs \<noteq> []"
  by (cases segs) (simp_all add: render_chain_Cons render_segment_nonempty)

lemma render_chain_head:
  "segs \<noteq> [] \<Longrightarrow> \<not> is_ident_char (hd (render_chain segs @ rest))"
proof (cases segs)
  case Nil
  assume "segs \<noteq> []"
  with Nil show ?thesis by simp
next
  case (Cons sg segs')
  then show ?thesis by (cases sg) (simp_all add: render_chain_Cons not_ident_dot_bracket)
qed

lemma greedy_plus_None: "seg s = None \<Longrightarrow> greedy_plus seg s = 0"
  by (subst greedy_plus.simps) simp

lemma greedy_plus_Some:
  assumes "seg (a @ s) = Some (length a)" "a \<noteq> []"
  shows "greedy_plus seg (a @ s) = length a + greedy_plus seg s"
  using assms by (subst greedy_plus.simps) simp

lemma greedy_chain:
  assumes "list_all wf_segment segs" "segs \<noteq> []" "chain_ends segs rest"
  shows "greedy_plus match_values_segment (render_chain segs @ rest) = length (render_chain segs)"
  using assms
proof (induction segs)
  case Nil
  then show ?case by simp
next
  case (Cons sg segs)
  from Cons.prems(1) have sg: "wf_segment sg" and segs: "list_all wf_segment segs" by simp_all
  let ?nxt = "render_chain segs @ rest"
  have tail: "greedy_plus match_values_segment ?nxt = length (render_chain segs)"
    and follow: "case sg of Ident s \<Rightarrow> ?nxt = [] \<or> \<not> is_ident_char (hd ?nxt) | Bracket s \<Rightarrow> True"
  proof -
    show "greedy_plus match_values_segment ?nxt = length (render_chain segs)"
    proof (cases "segs = []")
      case True
      from Cons.prems(3) True have "\<not> starts_segment rest" by (simp add: chain_ends_def)
      then have "match_values_segment rest = None" using match_segment_starts [of rest] by simp
      then show ?thesis by (simp add: True render_chain_def greedy_plus_None)
    next
      case False
      with Cons.prems(3) have "chain_ends segs rest" by (simp add: chain_ends_def)
      from Cons.IH [OF segs False this] show ?thesis .
    qed
    show "case sg of Ident s \<Rightarrow> ?nxt = [] \<or> \<not> is_ident_char (hd ?nxt) | Bracket s \<Rightarrow> True"
    proof (cases "segs = []")
      case True
      with Cons.prems(3) show ?thesis
        by (cases sg) (simp_all add: chain_ends_def render_chain_def)
    next
      case False
      from render_chain_head [OF this, of rest] show ?thesis by (cases sg) simp_all
    qed
  qed
  have m: "match_values_segment (render_segment sg @ ?nxt) = Some (length (render_segment sg))"
    by (rule match_segment_rendered [OF sg follow])
  have "greedy_plus match_values_segment (render_segment sg @ ?nxt)
          = length (render_segment sg) + greedy_plus match_values_segment ?nxt"
    using m render_segment_nonempty [of sg]
    by (rule greedy_plus_Some [where seg = match_values_segment])
  with tail show ?case by (simp add: render_chain_Cons)
qed

lemma match_values_rendered:
  assumes "list_all wf_segment segs" "segs \<noteq> []" "chain_ends segs rest"
  shows "match_values (''.Values'' @ render_chain segs @ rest)
           = Some (7 + length (render_chain segs), render_chain segs)"
  using greedy_chain [OF assms] render_chain_nonempty [OF assms(2)]
  by (simp add: match_values_def Let_def)

subsection \<open>Where the pattern cannot match\<close>

lemma greedy_plus_pos: "greedy_plus seg s \<noteq> 0 \<Longrightarrow> seg s \<noteq> None"
  by (subst (asm) greedy_plus.simps) (auto split: option.splits)

lemma match_values_None:
  assumes "\<not> is_hit s"
  shows "match_values s = None"
proof (rule ccontr)
  assume "match_values s \<noteq> None"
  then have p: "prefix ''.Values'' s" and g: "greedy_plus match_values_segment (drop 7 s) \<noteq> 0"
    by (auto simp: match_values_def Let_def split: if_splits)
  from g have "match_values_segment (drop 7 s) \<noteq> None" by (rule greedy_plus_pos)
  with match_segment_starts [of "drop 7 s"] have "starts_segment (drop 7 s)" by blast
  with p assms show False by (simp add: is_hit_def)
qed

lemma regex_exec_all_skip:
  assumes "s \<noteq> []" "m s = None"
  shows "regex_exec_all m i s = regex_exec_all m (Suc i) (tl s)"
  using assms by (subst regex_exec_all.simps) simp

lemma regex_exec_all_hit:
  assumes "m s = Some (n, g)" "n \<noteq> 0" "s \<noteq> []"
  shows "regex_exec_all m i s = (i, take n s, g) # regex_exec_all m (i + n) (drop n s)"
  using assms by (subst regex_exec_all.simps) simp

lemma skip_gap:
  assumes "quiet_in gap rest"
  shows "regex_exec_all match_values i (gap @ rest) = regex_exec_all match_values (i + length gap) rest"
  using assms
proof (induction gap arbitrary: i)
  case Nil
  show ?case by simp
next
  case (Cons c cs)
  from Cons.prems have h: "\<not> is_hit ((c # cs) @ rest)" and q: "quiet_in cs rest" by simp_all
  have "match_values ((c # cs) @ rest) = None" by (rule match_values_None [OF h])
  then have "regex_exec_all match_values i ((c # cs) @ rest)
               = regex_exec_all match_values (Suc i) (cs @ rest)"
    using regex_exec_all_skip [of "(c # cs) @ rest" match_values i] by simp
  also have "\<dots> = regex_exec_all match_values (Suc i + length cs) rest"
    by (rule Cons.IH [OF q])
  finally show ?case by simp
qed

subsection \<open>Scanning a line of occurrences\<close>

lemma take_drop_hit:
  assumes "length a = k"
  shows "take (k + length b) (a @ b @ c) = a @ b" "drop (k + length b) (a @ b @ c) = c"
  using assms by auto

lemma scan_line:
  assumes "wf_occurrences occs tail"
  shows "map snd (regex_exec_all match_values i (render_line occs tail))
           = map (\<lambda>occ. (''.Values'' @ render_chain (snd occ), render_chain (snd occ))) occs"
  using assms
proof (induction occs arbitrary: i)
  case Nil
  then have "quiet_in tail []" by simp
  from skip_gap [OF this, of i] show ?case
    by (simp add: regex_exec_all.simps [of _ _ "[]"])
next
  case (Cons occ occs)
  obtain gap segs where occ: "occ = (gap, segs)" by (cases occ)
  let ?chain = "render_chain segs"
  let ?rest = "render_line occs tail"
  let ?hit = "''.Values'' @ ?chain @ ?rest"
  from Cons.prems have gap: "quiet_in gap ?hit"
    and segs: "segs \<noteq> []" "list_all wf_segment segs" "chain_ends segs ?rest"
    and rest: "wf_occurrences occs tail"
    unfolding occ by simp_all
  have m: "match_values ?hit = Some (7 + length ?chain, ?chain)"
    by (rule match_values_rendered [OF segs(2) segs(1) segs(3)])
  have "regex_exec_all match_values i (gap @ ?hit) = regex_exec_all match_values (i + length gap) ?hit"
    by (rule skip_gap [OF gap])
  also have "\<dots> = (i + length gap, take (7 + length ?chain) ?hit, ?chain)
                      # regex_exec_all match_values (i + length gap + (7 + length ?chain))
                          (drop (7 + length ?chain) ?hit)"
    by (rule regex_exec_all_hit [where m = match_values and s = ?hit, OF m]) simp_all
  also have "take (7 + length ?chain) ?hit = ''.Values'' @ ?chain"
    by (rule take_drop_hit) simp
  also have "drop (7 + length ?chain) ?hit = ?rest"
    by (rule take_drop_hit) simp
  finally have "map snd (regex_exec_all match_values i (gap @ ?hit))
                  = (''.Values'' @ ?chain, ?chain)
                    # map snd (regex_exec_all match_values (i + length gap + (7 + length ?chain)) ?rest)"
    by simp
  with Cons.IH [OF rest] show ?case by (simp add: occ)
qed

lemma strip_leading_dot_chain:
  assumes "list_all wf_segment segs"
  shows "strip_leading_dot (render_chain segs) = chain_path segs"
proof (cases segs)
  case Nil
  then show ?thesis by (simp add: render_chain_def strip_leading_dot_def)
next
  case (Cons sg segs')
  show ?thesis
  proof (cases sg)
    case (Ident s)
    then show ?thesis by (simp add: Cons render_chain_Cons strip_leading_dot_def)
  next
    case (Bracket b)
    then show ?thesis by (simp add: Cons render_chain_Cons strip_leading_dot_def)
  qed
qed

lemma wf_occurrences_segments:
  "wf_occurrences occs tail \<Longrightarrow> occ \<in> set occs \<Longrightarrow> list_all wf_segment (snd occ)"
  by (induction occs) auto

lemma values_of_line:
  assumes "wf_occurrences occs tail"
  shows "extractValuesReferences (render_line occs tail) filePath lineNum
           = map (expected_reference filePath lineNum) occs"
proof -
  let ?mk = "\<lambda>(fullPath, g1). make_reference filePath lineNum RT_values TT_value
                (strip_leading_dot g1) (strip_leading_dot g1) fullPath"
  have "extractValuesReferences (render_line occs tail) filePath lineNum
          = map ?mk (map snd (regex_exec_all match_values 0 (render_line occs tail)))"
    by (simp add: extractValuesReferences_def Let_def split_def)
  also have "\<dots> = map ?mk (map (\<lambda>occ. (''.Values'' @ render_chain (snd occ), render_chain (snd occ))) occs)"
    by (simp only: scan_line [OF assms])
  also have "\<dots> = map (\<lambda>occ. make_reference filePath lineNum RT_values TT_value
                               (strip_leading_dot (render_chain (snd occ)))
                               (strip_leading_dot (render_chain (snd occ)))
                               (''.Values'' @ render_chain (snd occ))) occs"
    by (simp add: o_def)
  also have "\<dots> = map (expected_reference filePath lineNum) occs"
  proof (rule map_cong [OF refl])
    fix occ
    assume "occ \<in> set occs"
    from wf_occurrences_segments [OF assms this]
    have "strip_leading_dot (render_chain (snd occ)) = chain_path (snd occ)"
      by (rule strip_leading_dot_chain)
    then show "make_reference filePath lineNum RT_values TT_value
                 (strip_leading_dot (render_chain (snd occ))) (strip_leading_dot (render_chain (snd occ)))
                 (''.Values'' @ render_chain (snd occ))
               = expected_reference filePath lineNum occ"
      by (simp add: make_reference_def expected_reference_def type_name_def)
  qed
  finally show ?thesis .
qed


subsection \<open>Scanning a text line by line\<close>








section \<open>The ids of the references of one line\<close>

lemma regex_exec_all_matches:
  assumes "(i, t, g) \<in> set (regex_exec_all m i0 s)"
  shows "\<exists>s' n. m s' = Some (n, g) \<and> t = take n s'"
  using assms
proof (induction m i0 s rule: regex_exec_all.induct)
  case (1 m i0 s)
  show ?case
  proof (cases "s = []")
    case True
    with "1.prems" show ?thesis by (simp add: regex_exec_all.simps)
  next
    case False
    show ?thesis
    proof (cases "m s")
      case None
      with False "1.prems" have "(i, t, g) \<in> set (regex_exec_all m (Suc i0) (tl s))"
        by (simp add: regex_exec_all.simps [of m i0 s])
      with "1.IH"(1) [OF False None] show ?thesis .
    next
      case (Some a)
      obtain n g' where a: "a = (n, g')" by (cases a)
      show ?thesis
      proof (cases "n = 0")
        case True
        with False Some a "1.prems" show ?thesis by (simp add: regex_exec_all.simps [of m i0 s])
      next
        case n: False
        from False Some a n "1.prems"
        have "(i, t, g) = (i0, take n s, g') \<or> (i, t, g) \<in> set (regex_exec_all m (i0 + n) (drop n s))"
          by (simp add: regex_exec_all.simps [of m i0 s])
        then show ?thesis
        proof
          assume "(i, t, g) = (i0, take n s, g')"
          with Some a show ?thesis by auto
        next
          assume "(i, t, g) \<in> set (regex_exec_all m (i0 + n) (drop n s))"
          with "1.IH"(2) [OF False Some a [symmetric] n] show ?thesis by simp
        qed
      qed
    qed
  qed
qed

lemma match_files_method:
  assumes "match_files s = Some (n, meth, g2)"
  shows "CHR '':'' \<notin> set meth"
proof -
  have "meth = takeWhile is_alpha (drop 7 s)"
  proof (cases "prefix ''.Files.'' s \<and> takeWhile is_alpha (drop 7 s) \<noteq> []")
    case True
    with assms show ?thesis
      by (cases "match_quoted (dropWhile is_space (drop (length (takeWhile is_alpha (drop 7 s))) (drop 7 s)))")
         (auto simp: match_files_def Let_def)
  next
    case False
    with assms show ?thesis by (cases "prefix ''.Files.'' s") (simp_all add: match_files_def Let_def)
  qed
  then have "\<forall>c\<in>set meth. is_alpha c" by (auto dest: set_takeWhileD)
  moreover have "\<not> is_alpha (CHR '':'')" by (simp add: is_alpha_def)
  ultimately show ?thesis by blast
qed

lemma colon_split_unique:
  assumes "a @ '':'' @ b = c @ '':'' @ d" and "CHR '':'' \<notin> set a" and "CHR '':'' \<notin> set c"
  shows "a = c \<and> b = d"
proof -
  have "takeWhile (\<lambda>x. x \<noteq> CHR '':'') (a @ '':'' @ b) = a"
    using assms(2) by (subst takeWhile_append2) auto
  moreover have "takeWhile (\<lambda>x. x \<noteq> CHR '':'') (c @ '':'' @ d) = c"
    using assms(3) by (subst takeWhile_append2) auto
  ultimately have "a = c" using assms(1) by simp
  with assms(1) show ?thesis by simp
qed

lemma type_name_no_colon: "CHR '':'' \<notin> set (type_name ty)"
  by (cases ty) (simp_all add: type_name_def)

lemma type_name_inject: "type_name a = type_name b \<Longrightarrow> a = b"
  by (cases a; cases b) (simp_all add: type_name_def)

text \<open>The id of a reference of one line, from its type and its key.\<close>

lemma make_reference_key:
  "\<exists>key. ref_id (make_reference filePath lineNum ty tty key tpath expr)
          = filePath @ '':'' @ string_of_nat lineNum @ '':'' @ type_name ty @ '':'' @ key"
  by (simp add: make_reference_def)

lemma extractLineReferences_cases:
  assumes "r \<in> set (extractLineReferences line filePath lineNum)"
  shows "\<exists>key. ref_id r = filePath @ '':'' @ string_of_nat lineNum @ '':'' @ type_name (ref_type r) @ '':'' @ key
             \<and> (if ref_type r = RT_files
                 then \<exists>m a. CHR '':'' \<notin> set m \<and> key = m @ '':'' @ a
                            \<and> rt_path (ref_target r) = (if a = [] then m else a)
                 else key = rt_path (ref_target r))"
proof -
  from assms consider
      (other) ty tty p e where "ty \<noteq> RT_files" "r = make_reference filePath lineNum ty tty p p e"
    | (f) "r \<in> set (extractFilesReferences line filePath lineNum)"
    by (auto simp: extractLineReferences_def extractValuesReferences_def extractIncludeReferences_def
          extractChartReferences_def extractReleaseReferences_def extractCapabilitiesReferences_def
          Let_def)
  then show ?thesis
  proof cases
    case other
    then show ?thesis by (simp add: make_reference_def)
  next
    case f
    then obtain i m0 meth g2 where m: "(i, m0, meth, g2) \<in> set (regex_exec_all match_files 0 line)"
      and r: "r = make_reference filePath lineNum RT_files TT_file
                    (meth @ '':'' @ (case g2 of None \<Rightarrow> [] | Some a \<Rightarrow> a))
                    (if (case g2 of None \<Rightarrow> [] | Some a \<Rightarrow> a) = [] then meth
                     else (case g2 of None \<Rightarrow> [] | Some a \<Rightarrow> a)) m0"
      by (auto simp: extractFilesReferences_def Let_def)
    from regex_exec_all_matches [OF m] obtain s' n where "match_files s' = Some (n, meth, g2)"
      by blast
    then have "CHR '':'' \<notin> set meth" by (rule match_files_method)
    then show ?thesis unfolding r by (auto simp: make_reference_def)
  qed
qed

lemma line_reference_ids:
  assumes "r1 \<in> set (extractLineReferences line filePath lineNum)"
    and "r2 \<in> set (extractLineReferences line filePath lineNum)"
  shows "(ref_id r1 = ref_id r2 \<longrightarrow>
            ref_type r1 = ref_type r2 \<and> rt_path (ref_target r1) = rt_path (ref_target r2))
       \<and> (ref_type r1 = ref_type r2 \<and> ref_type r1 \<noteq> RT_files
            \<and> rt_path (ref_target r1) = rt_path (ref_target r2) \<longrightarrow> ref_id r1 = ref_id r2)"
proof -
  let ?head = "filePath @ '':'' @ string_of_nat lineNum @ '':''"
  from extractLineReferences_cases [OF assms(1)] obtain key1
    where id1: "ref_id r1 = ?head @ type_name (ref_type r1) @ '':'' @ key1"
      and key1: "if ref_type r1 = RT_files
                 then \<exists>m a. CHR '':'' \<notin> set m \<and> key1 = m @ '':'' @ a
                            \<and> rt_path (ref_target r1) = (if a = [] then m else a)
                 else key1 = rt_path (ref_target r1)"
    by auto
  from extractLineReferences_cases [OF assms(2)] obtain key2
    where id2: "ref_id r2 = ?head @ type_name (ref_type r2) @ '':'' @ key2"
      and key2: "if ref_type r2 = RT_files
                 then \<exists>m a. CHR '':'' \<notin> set m \<and> key2 = m @ '':'' @ a
                            \<and> rt_path (ref_target r2) = (if a = [] then m else a)
                 else key2 = rt_path (ref_target r2)"
    by auto
  have forth: "ref_type r1 = ref_type r2 \<and> rt_path (ref_target r1) = rt_path (ref_target r2)"
    if "ref_id r1 = ref_id r2"
  proof -
    from that id1 id2
    have "type_name (ref_type r1) @ '':'' @ key1 = type_name (ref_type r2) @ '':'' @ key2"
      by simp
    from colon_split_unique [OF this type_name_no_colon type_name_no_colon]
    have ty: "ref_type r1 = ref_type r2" and key: "key1 = key2"
      by (auto dest: type_name_inject)
    show ?thesis
    proof (cases "ref_type r1 = RT_files")
      case False
      with ty key key1 key2 show ?thesis by simp
    next
      case True
      with key1 obtain m1 a1 where f1: "CHR '':'' \<notin> set m1" "key1 = m1 @ '':'' @ a1"
        "rt_path (ref_target r1) = (if a1 = [] then m1 else a1)" by auto
      from True ty key2 obtain m2 a2 where f2: "CHR '':'' \<notin> set m2" "key2 = m2 @ '':'' @ a2"
        "rt_path (ref_target r2) = (if a2 = [] then m2 else a2)" by auto
      from key f1(2) f2(2) have "m1 @ '':'' @ a1 = m2 @ '':'' @ a2" by simp
      from colon_split_unique [OF this f1(1) f2(1)] f1(3) f2(3) ty show ?thesis by simp
    qed
  qed
  have converse_dir: "ref_id r1 = ref_id r2"
    if "ref_type r1 = ref_type r2" "ref_type r1 \<noteq> RT_files"
       "rt_path (ref_target r1) = rt_path (ref_target r2)"
    using that id1 id2 key1 key2 by simp
  from forth converse_dir show ?thesis by blast
qed

text \<open>
  C1, as the code has it. The claim says that two occurrences of the same values
  expression on one line get distinct ids. The id is built from the file, the line, the
  type and the key alone, so the two references of \<open>{{ .Values.a.b }} {{ .Values.a.b }}\<close>
  carry the same id (\<open>same_line_reference_ids_counterexample\<close> below). What holds: on a
  well-formed line, where each occurrence is taken outside every chain and with its whole
  chain, every occurrence of a values expression produces its own reference, in the order
  of the line, and two of these references have the same id exactly when their
  occurrences have the same path; so two occurrences of the same expression give two
  references with one id. And for every line: two references of the line with the same id
  have the same type and the same target path, and two references of the line of the same
  type other than \<open>files\<close> with the same target path have the same id. The id tells the
  references of a line apart exactly as far as their type and key differ, not by
  occurrence.
\<close>

theorem values_occurrence_ids:
  "(wf_occurrences occs tail \<longrightarrow>
      extractValuesReferences (render_line occs tail) filePath lineNum
        = map (expected_reference filePath lineNum) occs
      \<and> (\<forall>i<length occs. \<forall>j<length occs.
            (ref_id (extractValuesReferences (render_line occs tail) filePath lineNum ! i)
               = ref_id (extractValuesReferences (render_line occs tail) filePath lineNum ! j))
            = (chain_path (snd (occs ! i)) = chain_path (snd (occs ! j)))))
   \<and> (\<forall>r1\<in>set (extractLineReferences line filePath lineNum).
      \<forall>r2\<in>set (extractLineReferences line filePath lineNum).
        (ref_id r1 = ref_id r2 \<longrightarrow>
           ref_type r1 = ref_type r2 \<and> rt_path (ref_target r1) = rt_path (ref_target r2))
        \<and> (ref_type r1 = ref_type r2 \<and> ref_type r1 \<noteq> RT_files
             \<and> rt_path (ref_target r1) = rt_path (ref_target r2) \<longrightarrow> ref_id r1 = ref_id r2))"
proof (intro conjI impI ballI allI)
  assume wf: "wf_occurrences occs tail"
  show refs: "extractValuesReferences (render_line occs tail) filePath lineNum
          = map (expected_reference filePath lineNum) occs"
    by (rule values_of_line [OF wf])
  fix i j
  assume "i < length occs" "j < length occs"
  then show "(ref_id (extractValuesReferences (render_line occs tail) filePath lineNum ! i)
               = ref_id (extractValuesReferences (render_line occs tail) filePath lineNum ! j))
            = (chain_path (snd (occs ! i)) = chain_path (snd (occs ! j)))"
    by (simp add: refs expected_reference_def)
next
  fix r1 r2
  assume r: "r1 \<in> set (extractLineReferences line filePath lineNum)"
    "r2 \<in> set (extractLineReferences line filePath lineNum)"
  from line_reference_ids [OF r]
  show "ref_id r1 = ref_id r2 \<Longrightarrow> ref_type r1 = ref_type r2"
    and "ref_id r1 = ref_id r2 \<Longrightarrow> rt_path (ref_target r1) = rt_path (ref_target r2)"
    and "ref_type r1 = ref_type r2 \<and> ref_type r1 \<noteq> RT_files
           \<and> rt_path (ref_target r1) = rt_path (ref_target r2) \<Longrightarrow> ref_id r1 = ref_id r2"
    by blast+
qed

theorem same_line_reference_ids_counterexample:
  "map ref_id (extractValuesReferences ''{{ .Values.a.b }} {{ .Values.a.b }}'' ''templates/x.yaml'' 1)
     = [''templates/x.yaml:1:values:a.b'', ''templates/x.yaml:1:values:a.b'']
   \<and> map (\<lambda>r. rt_path (ref_target r))
         (extractValuesReferences ''{{ .Values.a.b }} {{ .Values.a.b }}'' ''templates/x.yaml'' 1)
     = [''a.b'', ''a.b'']"
  by code_simp

theorem values_occurrence_ids_witness:
  "wf_occurrences [(''{{ '', [Ident ''a'', Ident ''b'']), ('' }} {{ '', [Ident ''a'', Ident ''b''])] '' }}''
   \<and> render_line [(''{{ '', [Ident ''a'', Ident ''b'']), ('' }} {{ '', [Ident ''a'', Ident ''b''])] '' }}''
       = ''{{ .Values.a.b }} {{ .Values.a.b }}''
   \<and> length (extractValuesReferences ''{{ .Values.a.b }} {{ .Values.a.b }}'' ''t.yaml'' 1) = 2
   \<and> ref_id (extractValuesReferences ''{{ .Values.a.b }} {{ .Values.a.b }}'' ''t.yaml'' 1 ! 0)
       = ref_id (extractValuesReferences ''{{ .Values.a.b }} {{ .Values.a.b }}'' ''t.yaml'' 1 ! 1)"
proof -
  let ?occs = "[(''{{ '', [Ident ''a'', Ident ''b'']), ('' }} {{ '', [Ident ''a'', Ident ''b''])]"
  let ?line = "''{{ .Values.a.b }} {{ .Values.a.b }}''"
  have wf: "wf_occurrences ?occs '' }}''" by code_simp
  have line: "render_line ?occs '' }}'' = ?line" by code_simp
  from values_occurrence_ids [of ?occs "'' }}''" "''t.yaml''" 1 "[]"] wf
  have refs: "extractValuesReferences (render_line ?occs '' }}'') ''t.yaml'' 1
                = map (expected_reference ''t.yaml'' 1) ?occs"
    and ids: "\<forall>i<length ?occs. \<forall>j<length ?occs.
            (ref_id (extractValuesReferences (render_line ?occs '' }}'') ''t.yaml'' 1 ! i)
               = ref_id (extractValuesReferences (render_line ?occs '' }}'') ''t.yaml'' 1 ! j))
            = (chain_path (snd (?occs ! i)) = chain_path (snd (?occs ! j)))"
    by blast+
  from refs have len: "length (extractValuesReferences (render_line ?occs '' }}'') ''t.yaml'' 1) = 2"
    by simp
  from ids have "(ref_id (extractValuesReferences (render_line ?occs '' }}'') ''t.yaml'' 1 ! 0)
               = ref_id (extractValuesReferences (render_line ?occs '' }}'') ''t.yaml'' 1 ! 1))
            = (chain_path (snd (?occs ! 0)) = chain_path (snd (?occs ! 1)))"
    by (simp del: render_line.simps)
  then have same: "ref_id (extractValuesReferences (render_line ?occs '' }}'') ''t.yaml'' 1 ! 0)
               = ref_id (extractValuesReferences (render_line ?occs '' }}'') ''t.yaml'' 1 ! 1)"
    by simp
  from wf line len same show ?thesis by (simp only: line) 
qed

end
